theory Spec2Isabelle
  imports Main "HOL-Library.Log_Nat"
begin

section \<open>RFP Simulator: the calculation engine of \<open>rfp_simulator.py\<close>\<close>

text \<open>
  The development embeds the pure part of the single source file: the rate tables, the
  per-solution cost table, the financial summary, the money formatter, the validation
  block of the form handler and the sheets that the workbook exporter writes. Python exceptions are values of the type \<open>error\<close>; an
  operation that can raise returns \<open>error + 'a\<close>, with \<open>Inl\<close> for the exception.
\<close>

subsection \<open>Exceptions\<close>

datatype error = KeyError | OverflowError | ZeroDivisionError | TypeError | ValueError

subsection \<open>Configuration: the rate tables\<close>

text \<open>
  A Python dict keeps insertion order; the three rate tables are association lists in the
  order of the source. \<open>d[k]\<close> raises \<open>KeyError\<close> on a missing key, \<open>d.get(k, v)\<close> returns
  the default.
\<close>

type_synonym rate_table = "(string \<times> int) list"

definition ANNUAL_COST_PER_FTE :: int where
  "ANNUAL_COST_PER_FTE = 60000"

definition TECH_LICENSE_COSTS :: rate_table where
  "TECH_LICENSE_COSTS =
     [(''RPA'', 5000), (''VBA'', 0), (''Celonis'', 10000),
      (''Soroco'', 8000), (''Analytics'', 7000), (''AI'', 12000)]"

definition DEV_COSTS :: rate_table where
  "DEV_COSTS =
     [(''RPA'', 20000), (''VBA'', 1000), (''Celonis'', 30000),
      (''Soroco'', 25000), (''Analytics'', 15000), (''AI'', 40000)]"

definition USER_LICENSE_PER_TECH :: rate_table where
  "USER_LICENSE_PER_TECH =
     [(''RPA'', 100), (''VBA'', 0), (''Celonis'', 200),
      (''Soroco'', 150), (''Analytics'', 120), (''AI'', 250)]"

definition ALL_TECHS :: "string list" where
  "ALL_TECHS = map fst TECH_LICENSE_COSTS"

definition getitem :: "rate_table \<Rightarrow> string \<Rightarrow> error + int" where
  "getitem d k = (case map_of d k of None \<Rightarrow> Inl KeyError | Some v \<Rightarrow> Inr v)"

definition get_default :: "rate_table \<Rightarrow> string \<Rightarrow> int \<Rightarrow> int" where
  "get_default d k v = (case map_of d k of None \<Rightarrow> v | Some w \<Rightarrow> w)"

subsection \<open>The per-solution cost table\<close>

text \<open>
  One row of the data frame: the dict with the keys \<open>Solution\<close>, \<open>License Cost\<close>,
  \<open>Development Cost\<close>, \<open>User License Cost\<close> and \<open>Total Cost\<close>. The data frame built
  from the list of dicts is the list of rows, in order. The headcount is a Python
  integer (unbounded), the selection a list of identifiers.
\<close>

record row =
  solution :: string
  license_cost :: int
  dev_cost :: int
  user_license_cost :: int
  total_cost :: int

text \<open>
  The body of the loop for one technology. A conditional expression evaluates the
  subscript only when the technology is selected, so only then can it raise.
\<close>

definition solution_row :: "int \<Rightarrow> string list \<Rightarrow> string \<Rightarrow> error + row" where
  "solution_row headcount selected_techs tech =
     (case (if tech \<in> set selected_techs then getitem TECH_LICENSE_COSTS tech else Inr 0) of
        Inl e \<Rightarrow> Inl e
      | Inr lc \<Rightarrow>
     (case (if tech \<in> set selected_techs then getitem DEV_COSTS tech else Inr 0) of
        Inl e \<Rightarrow> Inl e
      | Inr dc \<Rightarrow>
     (case (if tech \<in> set selected_techs
            then (case getitem USER_LICENSE_PER_TECH tech of
                    Inl e \<Rightarrow> Inl e | Inr u \<Rightarrow> Inr (u * headcount))
            else Inr 0) of
        Inl e \<Rightarrow> Inl e
      | Inr uc \<Rightarrow>
          Inr \<lparr>solution = tech, license_cost = lc, dev_cost = dc,
               user_license_cost = uc, total_cost = lc + dc + uc\<rparr>)))"

text \<open>The loop \<open>for tech in ALL_TECHS\<close>, appending to \<open>rows\<close>.\<close>

fun append_rows :: "int \<Rightarrow> string list \<Rightarrow> row list \<Rightarrow> string list \<Rightarrow> error + row list" where
  "append_rows headcount selected_techs rows [] = Inr rows"
| "append_rows headcount selected_techs rows (tech # techs) =
     (case solution_row headcount selected_techs tech of
        Inl e \<Rightarrow> Inl e
      | Inr r \<Rightarrow> append_rows headcount selected_techs (rows @ [r]) techs)"

definition totals_row :: "row list \<Rightarrow> row" where
  "totals_row rows =
     \<lparr>solution = ''Total Cost'',
      license_cost = sum_list (map license_cost rows),
      dev_cost = sum_list (map dev_cost rows),
      user_license_cost = sum_list (map user_license_cost rows),
      total_cost = sum_list (map total_cost rows)\<rparr>"

definition per_solution_table :: "int \<Rightarrow> string list \<Rightarrow> error + row list" where
  "per_solution_table headcount selected_techs =
     (case append_rows headcount selected_techs [] ALL_TECHS of
        Inl e \<Rightarrow> Inl e
      | Inr rows \<Rightarrow> Inr (rows @ [totals_row rows]))"

subsection \<open>Python floats\<close>

text \<open>
  A Python float is an IEEE 754 binary64 value: a finite double, an infinity or a NaN.
  A finite double is modelled by the rational it denotes. The sign of a zero is not
  modelled: no operation used below can observe it (division by either zero raises).

  \<open>round_half_even\<close> rounds a rational to the nearest integer, ties to the even one. It
  is the rounding of the significand in every arithmetic operation, and it is Python's
  \<open>round(x)\<close> on a finite float.
\<close>

definition round_half_even :: "rat \<Rightarrow> int" where
  "round_half_even q =
     (let f = \<lfloor>q\<rfloor>; r = q - of_int f
      in if r < 1 / 2 then f else if 1 / 2 < r then f + 1
         else if even f then f else f + 1)"

text \<open>
  The binary exponent of a non-zero rational: the \<open>e\<close> with \<open>2^e \<le> |x| < 2^(e+1)\<close>,
  computed from the bit length of an integer. At zero its value does not matter:
  zero rounds to zero at every exponent.
\<close>

definition float_exponent :: "rat \<Rightarrow> int" where
  "float_exponent x =
     (if 1 \<le> \<bar>x\<bar> then int (floorlog 2 (nat \<lfloor>\<bar>x\<bar>\<rfloor>)) - 1
      else - int (floorlog 2 (nat (\<lceil>1 / \<bar>x\<bar>\<rceil> - 1))))"

text \<open>
  Rounding to the nearest double: 53 significant bits, a least exponent of \<open>-1074\<close> for
  the last bit (subnormal numbers), no bound above.
\<close>

definition double_round :: "rat \<Rightarrow> rat" where
  "double_round x =
     (let p = max (float_exponent x - 52) (- 1074)
      in of_int (round_half_even (x / 2 powi p)) * 2 powi p)"

datatype pyfloat = Finite rat | PosInf | NegInf | NaN

text \<open>The result of an operation whose exact value is \<open>x\<close>: rounded, infinite on overflow.\<close>

definition double_of_rat :: "rat \<Rightarrow> pyfloat" where
  "double_of_rat x =
     (let y = double_round x
      in if 2 ^ 1024 \<le> y then PosInf else if y \<le> - (2 ^ 1024) then NegInf else Finite y)"

text \<open>A float literal of the source denotes the double nearest to its decimal value.\<close>

definition float_literal :: "rat \<Rightarrow> pyfloat" where
  "float_literal q = double_of_rat q"

text \<open>
  The conversion of an integer operand in mixed arithmetic: correctly rounded, and
  \<open>OverflowError\<close> (int too large to convert to float) where the result would not be
  finite.
\<close>

definition float_of_int :: "int \<Rightarrow> error + pyfloat" where
  "float_of_int n =
     (case double_of_rat (of_int n) of
        Finite y \<Rightarrow> Inr (Finite y)
      | _ \<Rightarrow> Inl OverflowError)"

fun float_sgn :: "pyfloat \<Rightarrow> int" where
  "float_sgn (Finite a) = (if a = 0 then 0 else if 0 < a then 1 else - 1)"
| "float_sgn PosInf = 1"
| "float_sgn NegInf = - 1"
| "float_sgn NaN = 0"

definition inf_of_sign :: "int \<Rightarrow> pyfloat" where
  "inf_of_sign s = (if s = 0 then NaN else if 0 < s then PosInf else NegInf)"

fun float_neg :: "pyfloat \<Rightarrow> pyfloat" where
  "float_neg (Finite a) = Finite (- a)"
| "float_neg PosInf = NegInf"
| "float_neg NegInf = PosInf"
| "float_neg NaN = NaN"

fun float_add :: "pyfloat \<Rightarrow> pyfloat \<Rightarrow> pyfloat" where
  "float_add (Finite a) (Finite b) = double_of_rat (a + b)"
| "float_add NaN y = NaN"
| "float_add x NaN = NaN"
| "float_add PosInf NegInf = NaN"
| "float_add NegInf PosInf = NaN"
| "float_add PosInf y = PosInf"
| "float_add NegInf y = NegInf"
| "float_add x PosInf = PosInf"
| "float_add x NegInf = NegInf"

definition float_sub :: "pyfloat \<Rightarrow> pyfloat \<Rightarrow> pyfloat" where
  "float_sub x y = float_add x (float_neg y)"

fun float_mul :: "pyfloat \<Rightarrow> pyfloat \<Rightarrow> pyfloat" where
  "float_mul (Finite a) (Finite b) = double_of_rat (a * b)"
| "float_mul NaN y = NaN"
| "float_mul x NaN = NaN"
| "float_mul x y = inf_of_sign (float_sgn x * float_sgn y)"

text \<open>True division of floats raises on a zero divisor, whatever the dividend.\<close>

fun float_div :: "pyfloat \<Rightarrow> pyfloat \<Rightarrow> error + pyfloat" where
  "float_div x (Finite b) =
     (if b = 0 then Inl ZeroDivisionError
      else case x of
             Finite a \<Rightarrow> Inr (double_of_rat (a / b))
           | NaN \<Rightarrow> Inr NaN
           | _ \<Rightarrow> Inr (inf_of_sign (float_sgn x * float_sgn (Finite b))))"
| "float_div x NaN = Inr NaN"
| "float_div NaN y = Inr NaN"
| "float_div (Finite a) y = Inr (Finite 0)"
| "float_div x y = Inr NaN"

text \<open>Truth value of a float (\<open>if x\<close>) and the comparison \<open>x > 0\<close>.\<close>

fun float_bool :: "pyfloat \<Rightarrow> bool" where
  "float_bool (Finite a) = (a \<noteq> 0)"
| "float_bool x = True"

fun float_gt0 :: "pyfloat \<Rightarrow> bool" where
  "float_gt0 (Finite a) = (0 < a)"
| "float_gt0 PosInf = True"
| "float_gt0 x = False"

text \<open>Mixed arithmetic converts the integer operand first.\<close>

definition int_mul_float :: "int \<Rightarrow> pyfloat \<Rightarrow> error + pyfloat" where
  "int_mul_float n x =
     (case float_of_int n of Inl e \<Rightarrow> Inl e | Inr y \<Rightarrow> Inr (float_mul y x))"

definition int_sub_float :: "int \<Rightarrow> pyfloat \<Rightarrow> error + pyfloat" where
  "int_sub_float n x =
     (case float_of_int n of Inl e \<Rightarrow> Inl e | Inr y \<Rightarrow> Inr (float_sub y x))"

definition float_add_int :: "pyfloat \<Rightarrow> int \<Rightarrow> error + pyfloat" where
  "float_add_int x n =
     (case float_of_int n of Inl e \<Rightarrow> Inl e | Inr y \<Rightarrow> Inr (float_add x y))"

subsection \<open>The financial summary\<close>

definition IMPLEMENTATION_PCT :: pyfloat where
  "IMPLEMENTATION_PCT = float_literal (20 / 100)"

definition SAVINGS_PCT :: pyfloat where
  "SAVINGS_PCT = float_literal (30 / 100)"

record summary =
  headcount_cost :: int
  implementation_cost :: pyfloat
  tech_cost :: int
  annual_savings :: pyfloat
  net_annual_cost :: pyfloat
  payback_years :: "pyfloat option"

text \<open>
  \<open>calculate_costs\<close>, statement by statement. The three mixed operations on
  \<open>headcount_cost\<close> and the one on \<open>tech_cost\<close> are outside the \<open>try\<close> and propagate
  their exception; the division is inside it, and a failure leaves \<open>payback_years\<close> at
  \<open>None\<close>.
\<close>

definition calculate_costs :: "int \<Rightarrow> string list \<Rightarrow> error + summary" where
  "calculate_costs headcount selected_techs =
     (let hc = headcount * ANNUAL_COST_PER_FTE in
      case int_mul_float hc IMPLEMENTATION_PCT of
        Inl e \<Rightarrow> Inl e
      | Inr ic \<Rightarrow>
     (case int_mul_float hc SAVINGS_PCT of
        Inl e \<Rightarrow> Inl e
      | Inr sv \<Rightarrow>
     (let tc = sum_list (map (\<lambda>t. get_default TECH_LICENSE_COSTS t 0) selected_techs) in
      case int_sub_float hc sv of
        Inl e \<Rightarrow> Inl e
      | Inr d \<Rightarrow>
     (case float_add_int d tc of
        Inl e \<Rightarrow> Inl e
      | Inr net \<Rightarrow>
          Inr \<lparr>headcount_cost = hc, implementation_cost = ic, tech_cost = tc,
               annual_savings = sv, net_annual_cost = net,
               payback_years =
                 (if float_bool sv \<and> float_gt0 sv
                  then (case float_div ic sv of Inl e \<Rightarrow> None | Inr q \<Rightarrow> Some q)
                  else None)\<rparr>))))"

subsection \<open>The money formatter\<close>

text \<open>
  The values \<open>fmt_money\<close> is applied to: integers, floats, and, for the fallback,
  strings and \<open>None\<close>.
\<close>

datatype pyval = PInt int | PFloat pyfloat | PStr string | PNone

definition CURRENCY :: string where
  "CURRENCY = ''$''"

text \<open>
  \<open>int(round(x))\<close>: an integer is returned as it is, a finite float is rounded half to
  even, an infinity raises \<open>OverflowError\<close>, a NaN \<open>ValueError\<close>, and a value without
  \<open>__round__\<close> raises \<open>TypeError\<close>.
\<close>

fun int_round :: "pyval \<Rightarrow> error + int" where
  "int_round (PInt n) = Inr n"
| "int_round (PFloat (Finite a)) = Inr (round_half_even a)"
| "int_round (PFloat NaN) = Inl ValueError"
| "int_round (PFloat x) = Inl OverflowError"
| "int_round (PStr s) = Inl TypeError"
| "int_round PNone = Inl TypeError"

text \<open>
  The format specification \<open>,\<close>: decimal digits in groups of three, a sign before them.
  The conversion of an integer to its digits is refused with \<open>ValueError\<close> when there
  are more than \<open>4300\<close> of them, the default limit of CPython 3.11
  (\<open>sys.int_info.default_max_str_digits\<close>); the sign does not count.
\<close>

definition MAX_STR_DIGITS :: nat where
  "MAX_STR_DIGITS = 4300"

definition digit_char :: "nat \<Rightarrow> char" where
  "digit_char d = ''0123456789'' ! d"

function decimal :: "nat \<Rightarrow> string" where
  "decimal n = (if n < 10 then [digit_char n] else decimal (n div 10) @ [digit_char (n mod 10)])"
  by pat_completeness auto
termination
  by (relation "measure id") auto

function group_thousands :: "string \<Rightarrow> string" where
  "group_thousands s =
     (if length s \<le> 3 then s
      else group_thousands (take (length s - 3) s) @ '','' @ drop (length s - 3) s)"
  by pat_completeness auto
termination
  by (relation "measure length") auto

declare decimal.simps [simp del] group_thousands.simps [simp del]

definition format_thousands :: "int \<Rightarrow> error + string" where
  "format_thousands n =
     (let digits = decimal (nat \<bar>n\<bar>)
      in if MAX_STR_DIGITS < length digits then Inl ValueError
         else Inr ((if n < 0 then ''-'' else []) @ group_thousands digits))"

text \<open>
  \<open>fmt_money\<close>: the \<open>try\<close> block is the formatted string or the exception; the bare
  \<open>except\<close> turns every exception into the string for zero.
\<close>

definition fmt_money_try :: "pyval \<Rightarrow> error + string" where
  "fmt_money_try x =
     (case int_round x of
        Inl e \<Rightarrow> Inl e
      | Inr n \<Rightarrow>
          (case format_thousands n of Inl e \<Rightarrow> Inl e | Inr s \<Rightarrow> Inr (CURRENCY @ s)))"

definition fmt_money :: "pyval \<Rightarrow> error + string" where
  "fmt_money x =
     (case fmt_money_try x of Inl e \<Rightarrow> Inr (CURRENCY @ ''0'') | Inr s \<Rightarrow> Inr s)"

subsection \<open>The validation block\<close>

text \<open>
  \<open>int(x)\<close> on a float truncates towards zero; it raises \<open>OverflowError\<close> on an
  infinity and \<open>ValueError\<close> on a NaN.
\<close>

fun int_of_float :: "pyfloat \<Rightarrow> error + int" where
  "int_of_float (Finite a) = Inr (if 0 \<le> a then \<lfloor>a\<rfloor> else \<lceil>a\<rceil>)"
| "int_of_float NaN = Inl ValueError"
| "int_of_float x = Inl OverflowError"

text \<open>
  The validation block of the form handler. Its first argument is the outcome of the
  builtin call \<open>float(str(headcount).strip())\<close> on the text of the headcount field: the
  float it returns or the exception it raises. The other four are the values of the
  drop-downs. The result is \<open>Inl errors\<close> when the handler lists the messages and stops,
  and \<open>Inr hc_val\<close> when it goes on to the calculation with that headcount.
\<close>

definition headcount_errors :: "error + pyfloat \<Rightarrow> string list \<times> int option" where
  "headcount_errors parsed =
     (case parsed of
        Inl e \<Rightarrow> ([''Headcount must be an integer.''], None)
      | Inr x \<Rightarrow>
          (case int_of_float x of
             Inl e \<Rightarrow> ([''Headcount must be an integer.''], None)
           | Inr hc_val \<Rightarrow>
               (if hc_val \<le> 0 then ([''Headcount must be > 0.''], Some hc_val)
                else ([], Some hc_val))))"

definition validation ::
    "error + pyfloat \<Rightarrow> string \<Rightarrow> string \<Rightarrow> string \<Rightarrow> string \<Rightarrow> string list + int" where
  "validation parsed region hc_category process_type transform_scale =
     (let (errors, hc) = headcount_errors parsed;
          errors = (if region = [] \<or> hc_category = [] \<or> process_type = []
                       \<or> transform_scale = []
                    then errors @ [''All dropdowns are mandatory.''] else errors)
      in if errors \<noteq> [] then Inl errors
         else (case hc of None \<Rightarrow> Inl errors | Some hc_val \<Rightarrow> Inr hc_val))"

subsection \<open>The workbook exporter\<close>







subsection \<open>Closed forms\<close>

text \<open>
  The row of the cost table as the specification words it: for a selected technology
  the flat license and development costs and the per-user rate times the headcount,
  with their sum; zero in every column otherwise. It is compared below with what the
  loop body computes.
\<close>

definition row_of :: "int \<Rightarrow> string list \<Rightarrow> string \<Rightarrow> row" where
  "row_of h S t =
     (if t \<in> set S
      then \<lparr>solution = t,
            license_cost = get_default TECH_LICENSE_COSTS t 0,
            dev_cost = get_default DEV_COSTS t 0,
            user_license_cost = get_default USER_LICENSE_PER_TECH t 0 * h,
            total_cost = get_default TECH_LICENSE_COSTS t 0 + get_default DEV_COSTS t 0
                           + get_default USER_LICENSE_PER_TECH t 0 * h\<rparr>
      else \<lparr>solution = t, license_cost = 0, dev_cost = 0,
            user_license_cost = 0, total_cost = 0\<rparr>)"

text \<open>The sum that \<open>calculate_costs\<close> takes over the selection.\<close>

abbreviation license_total :: "string list \<Rightarrow> int" where
  "license_total S \<equiv> sum_list (map (\<lambda>t. get_default TECH_LICENSE_COSTS t 0) S)"

section \<open>Properties\<close>

subsection \<open>The rate tables\<close>

lemma ALL_TECHS_eq:
  "ALL_TECHS = [''RPA'', ''VBA'', ''Celonis'', ''Soroco'', ''Analytics'', ''AI'']"
  by (simp add: ALL_TECHS_def TECH_LICENSE_COSTS_def)

lemma getitem_license:
  "tech \<in> set ALL_TECHS \<Longrightarrow> \<exists>v. getitem TECH_LICENSE_COSTS tech = Inr v"
  by (auto simp: ALL_TECHS_eq getitem_def TECH_LICENSE_COSTS_def)

lemma getitem_dev:
  "tech \<in> set ALL_TECHS \<Longrightarrow> \<exists>v. getitem DEV_COSTS tech = Inr v"
  by (auto simp: ALL_TECHS_eq getitem_def DEV_COSTS_def)

lemma getitem_user:
  "tech \<in> set ALL_TECHS \<Longrightarrow> \<exists>v. getitem USER_LICENSE_PER_TECH tech = Inr v"
  by (auto simp: ALL_TECHS_eq getitem_def USER_LICENSE_PER_TECH_def)

subsection \<open>One row\<close>

lemma solution_row_catalog:
  assumes "tech \<in> set ALL_TECHS"
  shows "solution_row h S tech = Inr (row_of h S tech)"
proof -
  from assms obtain a b c where
    "getitem TECH_LICENSE_COSTS tech = Inr a" "getitem DEV_COSTS tech = Inr b"
    "getitem USER_LICENSE_PER_TECH tech = Inr c"
    using getitem_license getitem_dev getitem_user by blast
  then show ?thesis
    by (auto simp: solution_row_def row_of_def getitem_def get_default_def
             split: option.splits)
qed

lemma append_rows_catalog:
  "set techs \<subseteq> set ALL_TECHS \<Longrightarrow>
   append_rows h S rows techs = Inr (rows @ map (row_of h S) techs)"
  by (induction techs arbitrary: rows) (simp_all add: solution_row_catalog)

lemma per_solution_table_eq:
  "per_solution_table h S =
     Inr (map (row_of h S) ALL_TECHS @ [totals_row (map (row_of h S) ALL_TECHS)])"
  by (simp add: per_solution_table_def append_rows_catalog)

lemma solution_row_of [simp]: "solution (row_of h S t) = t"
  by (simp add: row_of_def)

subsection \<open>Shape of the table\<close>

text \<open>
  Claim C1. For every headcount and every selection (in particular every positive
  headcount and every subset of the catalog), \<open>per_solution_table\<close> returns without
  raising; the result has one row per catalog technology and one more; the
  per-technology rows name the technologies in the order of the catalog; the last row
  is the totals row, labelled \<open>Total Cost\<close>, and each of its four cost columns is the
  sum of that column over the rows before it.
\<close>

theorem per_solution_table_shape:
  "\<exists>rows totals.
     per_solution_table h S = Inr (rows @ [totals])
     \<and> length (rows @ [totals]) = length ALL_TECHS + 1
     \<and> map solution rows = ALL_TECHS
     \<and> last (rows @ [totals]) = totals
     \<and> solution totals = ''Total Cost''
     \<and> license_cost totals = sum_list (map license_cost rows)
     \<and> dev_cost totals = sum_list (map dev_cost rows)
     \<and> user_license_cost totals = sum_list (map user_license_cost rows)
     \<and> total_cost totals = sum_list (map total_cost rows)"
proof -
  let ?rows = "map (row_of h S) ALL_TECHS"
  have "map solution ?rows = ALL_TECHS"
    by (simp add: comp_def)
  then show ?thesis
    by (intro exI [of _ ?rows] exI [of _ "totals_row ?rows"])
       (simp add: per_solution_table_eq totals_row_def)
qed

subsection \<open>Contents of the rows\<close>

lemma row_of_selected:
  assumes "t \<in> set ALL_TECHS" "t \<in> set S"
  shows "map_of TECH_LICENSE_COSTS t = Some (license_cost (row_of h S t))
         \<and> map_of DEV_COSTS t = Some (dev_cost (row_of h S t))
         \<and> (\<exists>u. map_of USER_LICENSE_PER_TECH t = Some u
                \<and> user_license_cost (row_of h S t) = u * h)
         \<and> total_cost (row_of h S t)
             = license_cost (row_of h S t) + dev_cost (row_of h S t)
               + user_license_cost (row_of h S t)"
  using assms
  by (auto simp: ALL_TECHS_eq row_of_def get_default_def TECH_LICENSE_COSTS_def
                 DEV_COSTS_def USER_LICENSE_PER_TECH_def)

lemma row_of_unselected:
  assumes "t \<notin> set S"
  shows "license_cost (row_of h S t) = 0 \<and> dev_cost (row_of h S t) = 0
         \<and> user_license_cost (row_of h S t) = 0 \<and> total_cost (row_of h S t) = 0"
  using assms by (simp add: row_of_def)

lemma per_solution_table_sample:
  "per_solution_table 25 [''RPA'', ''AI''] =
     Inr [\<lparr>solution = ''RPA'', license_cost = 5000, dev_cost = 20000,
            user_license_cost = 2500, total_cost = 27500\<rparr>,
          \<lparr>solution = ''VBA'', license_cost = 0, dev_cost = 0,
            user_license_cost = 0, total_cost = 0\<rparr>,
          \<lparr>solution = ''Celonis'', license_cost = 0, dev_cost = 0,
            user_license_cost = 0, total_cost = 0\<rparr>,
          \<lparr>solution = ''Soroco'', license_cost = 0, dev_cost = 0,
            user_license_cost = 0, total_cost = 0\<rparr>,
          \<lparr>solution = ''Analytics'', license_cost = 0, dev_cost = 0,
            user_license_cost = 0, total_cost = 0\<rparr>,
          \<lparr>solution = ''AI'', license_cost = 12000, dev_cost = 40000,
            user_license_cost = 6250, total_cost = 58250\<rparr>,
          \<lparr>solution = ''Total Cost'', license_cost = 17000, dev_cost = 60000,
            user_license_cost = 8750, total_cost = 85750\<rparr>]"
  by (simp add: per_solution_table_def ALL_TECHS_eq solution_row_def getitem_def
                TECH_LICENSE_COSTS_def DEV_COSTS_def USER_LICENSE_PER_TECH_def
                totals_row_def)

text \<open>
  Claim C2. For every headcount \<open>h > 0\<close> and every subset \<open>S\<close> of the catalog, the table
  is returned and its per-technology rows, one per catalog technology in order, are
  such that: the row of a technology in \<open>S\<close> carries the flat license and development
  costs of the rate tables, the per-user rate times \<open>h\<close> (integers, so exactly), and
  their sum as total; the row of a technology outside \<open>S\<close> is zero in all four cost
  columns. For \<open>h = 25\<close> and \<open>S = {RPA, AI}\<close> the table is the one of scenario A.
\<close>

theorem per_solution_table_rows:
  assumes "0 < h" and "set S \<subseteq> set ALL_TECHS"
  shows "(\<exists>rows totals.
            per_solution_table h S = Inr (rows @ [totals])
            \<and> map solution rows = ALL_TECHS
            \<and> (\<forall>r \<in> set rows.
                  (solution r \<in> set S \<longrightarrow>
                     map_of TECH_LICENSE_COSTS (solution r) = Some (license_cost r)
                     \<and> map_of DEV_COSTS (solution r) = Some (dev_cost r)
                     \<and> (\<exists>u. map_of USER_LICENSE_PER_TECH (solution r) = Some u
                            \<and> user_license_cost r = u * h)
                     \<and> total_cost r = license_cost r + dev_cost r + user_license_cost r)
                  \<and> (solution r \<notin> set S \<longrightarrow>
                       license_cost r = 0 \<and> dev_cost r = 0
                       \<and> user_license_cost r = 0 \<and> total_cost r = 0)))
         \<and> per_solution_table 25 [''RPA'', ''AI''] =
             Inr [\<lparr>solution = ''RPA'', license_cost = 5000, dev_cost = 20000,
                    user_license_cost = 2500, total_cost = 27500\<rparr>,
                  \<lparr>solution = ''VBA'', license_cost = 0, dev_cost = 0,
                    user_license_cost = 0, total_cost = 0\<rparr>,
                  \<lparr>solution = ''Celonis'', license_cost = 0, dev_cost = 0,
                    user_license_cost = 0, total_cost = 0\<rparr>,
                  \<lparr>solution = ''Soroco'', license_cost = 0, dev_cost = 0,
                    user_license_cost = 0, total_cost = 0\<rparr>,
                  \<lparr>solution = ''Analytics'', license_cost = 0, dev_cost = 0,
                    user_license_cost = 0, total_cost = 0\<rparr>,
                  \<lparr>solution = ''AI'', license_cost = 12000, dev_cost = 40000,
                    user_license_cost = 6250, total_cost = 58250\<rparr>,
                  \<lparr>solution = ''Total Cost'', license_cost = 17000, dev_cost = 60000,
                    user_license_cost = 8750, total_cost = 85750\<rparr>]"
proof -
  let ?rows = "map (row_of h S) ALL_TECHS"
  have order: "map solution ?rows = ALL_TECHS"
    by (simp add: comp_def)
  have each: "\<forall>r \<in> set ?rows.
      (solution r \<in> set S \<longrightarrow>
         map_of TECH_LICENSE_COSTS (solution r) = Some (license_cost r)
         \<and> map_of DEV_COSTS (solution r) = Some (dev_cost r)
         \<and> (\<exists>u. map_of USER_LICENSE_PER_TECH (solution r) = Some u
                \<and> user_license_cost r = u * h)
         \<and> total_cost r = license_cost r + dev_cost r + user_license_cost r)
      \<and> (solution r \<notin> set S \<longrightarrow>
           license_cost r = 0 \<and> dev_cost r = 0
           \<and> user_license_cost r = 0 \<and> total_cost r = 0)"
  proof
    fix r assume "r \<in> set ?rows"
    then obtain t where t: "t \<in> set ALL_TECHS" "r = row_of h S t"
      by auto
    show "(solution r \<in> set S \<longrightarrow>
         map_of TECH_LICENSE_COSTS (solution r) = Some (license_cost r)
         \<and> map_of DEV_COSTS (solution r) = Some (dev_cost r)
         \<and> (\<exists>u. map_of USER_LICENSE_PER_TECH (solution r) = Some u
                \<and> user_license_cost r = u * h)
         \<and> total_cost r = license_cost r + dev_cost r + user_license_cost r)
      \<and> (solution r \<notin> set S \<longrightarrow>
           license_cost r = 0 \<and> dev_cost r = 0
           \<and> user_license_cost r = 0 \<and> total_cost r = 0)"
      using row_of_selected [OF t(1), of S h] row_of_unselected [of t S h]
      unfolding t(2) solution_row_of by blast
  qed
  have "\<exists>rows totals.
            per_solution_table h S = Inr (rows @ [totals])
            \<and> map solution rows = ALL_TECHS
            \<and> (\<forall>r \<in> set rows.
                  (solution r \<in> set S \<longrightarrow>
                     map_of TECH_LICENSE_COSTS (solution r) = Some (license_cost r)
                     \<and> map_of DEV_COSTS (solution r) = Some (dev_cost r)
                     \<and> (\<exists>u. map_of USER_LICENSE_PER_TECH (solution r) = Some u
                            \<and> user_license_cost r = u * h)
                     \<and> total_cost r = license_cost r + dev_cost r + user_license_cost r)
                  \<and> (solution r \<notin> set S \<longrightarrow>
                       license_cost r = 0 \<and> dev_cost r = 0
                       \<and> user_license_cost r = 0 \<and> total_cost r = 0))"
    using per_solution_table_eq [of h S] order each by blast
  then show ?thesis
    using per_solution_table_sample by blast
qed

theorem per_solution_table_rows_witness:
  "(0::int) < 25 \<and> set [''RPA'', ''AI''] \<subseteq> set ALL_TECHS
   \<and> (\<exists>rows totals.
         per_solution_table 25 [''RPA'', ''AI''] = Inr (rows @ [totals])
         \<and> map solution rows = ALL_TECHS
         \<and> (\<exists>r \<in> set rows. solution r \<in> set [''RPA'', ''AI'']
               \<and> map_of USER_LICENSE_PER_TECH (solution r) = Some 100
               \<and> user_license_cost r = 100 * 25)
         \<and> (\<exists>r \<in> set rows. solution r \<notin> set [''RPA'', ''AI'']
               \<and> total_cost r = 0))"
proof -
  have h: "(0::int) < 25" by simp
  have s: "set [''RPA'', ''AI''] \<subseteq> set ALL_TECHS"
    by (simp add: ALL_TECHS_eq)
  from per_solution_table_rows [OF h s]
  obtain rows totals where
    t: "per_solution_table 25 [''RPA'', ''AI''] = Inr (rows @ [totals])"
    and o: "map solution rows = ALL_TECHS"
    and e: "\<forall>r \<in> set rows.
              (solution r \<in> set [''RPA'', ''AI''] \<longrightarrow>
                 map_of TECH_LICENSE_COSTS (solution r) = Some (license_cost r)
                 \<and> map_of DEV_COSTS (solution r) = Some (dev_cost r)
                 \<and> (\<exists>u. map_of USER_LICENSE_PER_TECH (solution r) = Some u
                        \<and> user_license_cost r = u * 25)
                 \<and> total_cost r = license_cost r + dev_cost r + user_license_cost r)
              \<and> (solution r \<notin> set [''RPA'', ''AI''] \<longrightarrow>
                   license_cost r = 0 \<and> dev_cost r = 0
                   \<and> user_license_cost r = 0 \<and> total_cost r = 0)"
    by blast
  from o have "''RPA'' \<in> solution ` set rows" "''VBA'' \<in> solution ` set rows"
    by (simp_all add: ALL_TECHS_eq flip: set_map)
  then obtain r1 r2 where
    r1: "r1 \<in> set rows" "solution r1 = ''RPA''" and
    r2: "r2 \<in> set rows" "solution r2 = ''VBA''"
    by auto
  from e r1 have "\<exists>u. map_of USER_LICENSE_PER_TECH (solution r1) = Some u
                      \<and> user_license_cost r1 = u * 25"
    by simp
  with r1 have a: "map_of USER_LICENSE_PER_TECH (solution r1) = Some 100
                   \<and> user_license_cost r1 = 100 * 25"
    by (auto simp: USER_LICENSE_PER_TECH_def)
  from e r2 have b: "total_cost r2 = 0"
    by simp
  have c: "\<exists>r \<in> set rows. solution r \<in> set [''RPA'', ''AI'']
               \<and> map_of USER_LICENSE_PER_TECH (solution r) = Some 100
               \<and> user_license_cost r = 100 * 25"
    using r1 a by (intro bexI [of _ r1]) simp_all
  have d: "\<exists>r \<in> set rows. solution r \<notin> set [''RPA'', ''AI''] \<and> total_cost r = 0"
    using r2 b by (intro bexI [of _ r2]) simp_all
  show ?thesis
    using h s t o c d by blast
qed

subsection \<open>Rounding to the nearest double\<close>

lemma rhe_near:
  assumes "of_int K - 1 / 2 < q" "q < of_int K + 1 / 2"
  shows "round_half_even q = K"
proof -
  have "\<lfloor>q\<rfloor> = K \<or> \<lfloor>q\<rfloor> = K - 1"
    using assms by linarith
  then show ?thesis
  proof
    assume f: "\<lfloor>q\<rfloor> = K"
    then have "q - of_int \<lfloor>q\<rfloor> < 1 / 2" using assms by simp
    then show ?thesis using f by (simp add: round_half_even_def Let_def)
  next
    assume f: "\<lfloor>q\<rfloor> = K - 1"
    then have "1 / 2 < q - of_int \<lfloor>q\<rfloor>" using assms by simp
    then show ?thesis using f by (simp add: round_half_even_def Let_def)
  qed
qed

lemma rhe_of_int [simp]: "round_half_even (of_int K) = K"
  by (rule rhe_near) simp_all

lemma rhe_zero [simp]: "round_half_even 0 = 0"
  using rhe_of_int [of 0] by simp

lemma rhe_bounds: "q - 1 / 2 \<le> of_int (round_half_even q)" "of_int (round_half_even q) \<le> q + 1 / 2"
  unfolding round_half_even_def Let_def by (auto; linarith)+

lemma rhe_mono:
  assumes "q \<le> q'" shows "round_half_even q \<le> round_half_even q'"
proof (cases "\<lfloor>q\<rfloor> = \<lfloor>q'\<rfloor>")
  case True
  with assms show ?thesis
    unfolding round_half_even_def Let_def by auto
next
  case False
  with assms have "\<lfloor>q\<rfloor> + 1 \<le> \<lfloor>q'\<rfloor>"
    using floor_mono [OF assms] by linarith
  moreover have "round_half_even q \<le> \<lfloor>q\<rfloor> + 1" "\<lfloor>q'\<rfloor> \<le> round_half_even q'"
    unfolding round_half_even_def Let_def by auto
  ultimately show ?thesis by linarith
qed

lemma pow2_le_of_nat: "2 ^ j \<le> (n::nat) \<Longrightarrow> (2::rat) ^ j \<le> of_nat n"
proof -
  assume "2 ^ j \<le> n"
  then have "(of_nat (2 ^ j) :: rat) \<le> of_nat n" by (simp only: of_nat_le_iff)
  then show ?thesis by simp
qed

lemma of_nat_lt_pow2: "(n::nat) < 2 ^ j \<Longrightarrow> (of_nat n :: rat) + 1 \<le> 2 ^ j"
proof -
  assume "n < 2 ^ j"
  then have "Suc n \<le> 2 ^ j" by simp
  then have "(of_nat (Suc n) :: rat) \<le> of_nat (2 ^ j)" by (simp only: of_nat_le_iff)
  then show ?thesis by simp
qed

lemma powi_pred: "0 < k \<Longrightarrow> (2::rat) powi (int k - 1) = 2 ^ (k - 1)"
proof -
  assume "0 < k"
  then have "int k - 1 = int (k - 1)" by simp
  then show ?thesis by (simp only: power_int_of_nat)
qed

lemma powi_neg: "(2::rat) powi (- int k) = 1 / 2 ^ k"
  by (simp add: power_int_minus field_simps)

lemma powi_neg_succ: "0 < k \<Longrightarrow> (2::rat) powi (- int k + 1) = 1 / 2 ^ (k - 1)"
proof -
  assume "0 < k"
  then have "- int k + 1 = - int (k - 1)" by simp
  then show ?thesis by (simp only: powi_neg)
qed

lemma float_exponent_ge1:
  assumes "1 \<le> \<bar>x\<bar>"
  shows "2 powi (float_exponent x) \<le> \<bar>x\<bar> \<and> \<bar>x\<bar> < 2 powi (float_exponent x + 1)"
proof -
  define a where "a = \<bar>x\<bar>"
  define n where "n = nat \<lfloor>a\<rfloor>"
  define k where "k = floorlog 2 n"
  have a1: "1 \<le> a" using assms by (simp add: a_def)
  have n: "0 < n" using a1 by (simp add: n_def)
  have fe: "float_exponent x = int k - 1"
    using assms by (simp add: float_exponent_def a_def n_def k_def)
  from floorlog_bounds [of n 2] n have b: "2 ^ (k - 1) \<le> n" "n < 2 ^ k"
    by (simp_all add: k_def)
  have "k \<noteq> 0" using n by (simp add: k_def floorlog_eq_zero_iff)
  then have k: "0 < k" by simp
  have "of_int \<lfloor>a\<rfloor> \<le> a" "a < of_int \<lfloor>a\<rfloor> + 1" by linarith+
  moreover have "(of_nat n :: rat) = of_int \<lfloor>a\<rfloor>"
    using a1 by (simp add: n_def)
  ultimately have na: "of_nat n \<le> a" "a < of_nat n + 1" by simp_all
  have l: "(2::rat) ^ (k - 1) \<le> a"
    using pow2_le_of_nat [OF b(1)] na by linarith
  have u: "a < (2::rat) ^ k"
    using of_nat_lt_pow2 [OF b(2)] na by linarith
  have "(2::rat) powi (int k - 1 + 1) = 2 ^ k" by simp
  then show ?thesis
    using l u powi_pred [OF k] unfolding fe a_def by simp
qed

lemma float_exponent_lt1:
  assumes "x \<noteq> 0" "\<not> 1 \<le> \<bar>x\<bar>"
  shows "2 powi (float_exponent x) \<le> \<bar>x\<bar> \<and> \<bar>x\<bar> < 2 powi (float_exponent x + 1)"
proof -
  define a where "a = \<bar>x\<bar>"
  define m where "m = \<lceil>1 / a\<rceil> - 1"
  define k where "k = floorlog 2 (nat m)"
  have a: "0 < a" "a < 1" using assms by (simp_all add: a_def)
  have fe: "float_exponent x = - int k"
    using assms by (simp add: float_exponent_def a_def m_def k_def)
  have "1 < 1 / a" using a by simp
  then have m: "1 \<le> m" unfolding m_def by linarith
  have n: "0 < nat m" using m by simp
  from floorlog_bounds [of "nat m" 2] n have b: "2 ^ (k - 1) \<le> nat m" "nat m < 2 ^ k"
    by (simp_all add: k_def)
  have "k \<noteq> 0" using n by (simp add: k_def floorlog_eq_zero_iff)
  then have k: "0 < k" by simp
  have nm: "(of_nat (nat m) :: rat) = of_int m" using m by simp
  have ma: "of_int m < 1 / a" "1 / a \<le> of_int m + 1"
    unfolding m_def by linarith+
  have u: "(2::rat) ^ (k - 1) < 1 / a"
    using pow2_le_of_nat [OF b(1)] ma nm by linarith
  have l: "1 / a \<le> (2::rat) ^ k"
    using of_nat_lt_pow2 [OF b(2)] ma nm by linarith
  have "a * 2 ^ (k - 1) < 1"
    using u a by (simp add: field_simps)
  then have u': "a < 1 / 2 ^ (k - 1)"
    by (simp add: field_simps)
  have "1 \<le> a * 2 ^ k"
    using l a by (simp add: field_simps)
  then have l': "1 / 2 ^ k \<le> a"
    by (simp add: field_simps)
  show ?thesis
    using l' u' powi_neg [of k] powi_neg_succ [OF k] unfolding fe a_def by simp
qed

lemma float_exponent_bounds:
  assumes "x \<noteq> 0"
  shows "2 powi (float_exponent x) \<le> \<bar>x\<bar>" "\<bar>x\<bar> < 2 powi (float_exponent x + 1)"
  using float_exponent_ge1 [of x] float_exponent_lt1 [of x] assms by blast+

lemma float_exponent_eq:
  assumes "2 powi e \<le> \<bar>x\<bar>" "\<bar>x\<bar> < 2 powi (e + 1)"
  shows "float_exponent x = e"
proof -
  have "0 < (2::rat) powi e" by simp
  then have "0 < \<bar>x\<bar>" using assms(1) by linarith
  then have x: "x \<noteq> 0" by simp
  note b = float_exponent_bounds [OF x]
  have "\<not> float_exponent x < e"
  proof
    assume "float_exponent x < e"
    then have "float_exponent x + 1 \<le> e" by simp
    then have "(2::rat) powi (float_exponent x + 1) \<le> 2 powi e"
      by (intro power_int_increasing) simp_all
    then show False using b(2) assms(1) by linarith
  qed
  moreover have "\<not> e < float_exponent x"
  proof
    assume "e < float_exponent x"
    then have "e + 1 \<le> float_exponent x" by simp
    then have "(2::rat) powi (e + 1) \<le> 2 powi (float_exponent x)"
      by (intro power_int_increasing) simp_all
    then show False using b(1) assms(2) by linarith
  qed
  ultimately show ?thesis by linarith
qed

lemma double_round_error:
  "\<bar>double_round x - x\<bar> \<le> 2 powi (max (float_exponent x - 52) (- 1074)) / 2"
proof -
  define p where "p = max (float_exponent x - 52) (- 1074)"
  define q where "q = x / 2 powi p"
  have pp: "0 < (2::rat) powi p" by simp
  have x: "x = q * 2 powi p" using pp by (simp add: q_def)
  have "double_round x = of_int (round_half_even q) * 2 powi p"
    by (simp add: double_round_def Let_def p_def q_def)
  then have "double_round x - x = (of_int (round_half_even q) - q) * 2 powi p"
    using x by (simp add: algebra_simps)
  then have "\<bar>double_round x - x\<bar> = \<bar>of_int (round_half_even q) - q\<bar> * 2 powi p"
    using pp by (simp add: abs_mult)
  moreover have "\<bar>of_int (round_half_even q) - q\<bar> \<le> 1 / 2"
    using rhe_bounds [of q] by linarith
  ultimately have "\<bar>double_round x - x\<bar> \<le> 1 / 2 * 2 powi p"
    using pp by (simp add: mult_right_mono)
  then show ?thesis by (simp add: p_def)
qed

lemma double_round_relative_error:
  assumes "2 powi (- 1022) \<le> \<bar>x\<bar>"
  shows "\<bar>double_round x - x\<bar> \<le> \<bar>x\<bar> / 2 ^ 53"
proof -
  have "0 < (2::rat) powi (- 1022)" by simp
  then have "0 < \<bar>x\<bar>" using assms by linarith
  then have x: "x \<noteq> 0" by simp
  note b = float_exponent_bounds [OF x]
  have "\<not> float_exponent x + 1 \<le> - 1022"
  proof
    assume "float_exponent x + 1 \<le> - 1022"
    then have "(2::rat) powi (float_exponent x + 1) \<le> 2 powi (- 1022)"
      by (intro power_int_increasing) simp_all
    then show False using b(2) assms by linarith
  qed
  then have m: "max (float_exponent x - 52) (- 1074) = float_exponent x - 52"
    by simp
  have "(2::rat) powi (float_exponent x - 52) = 2 powi (float_exponent x) / 2 powi 52"
    by (rule power_int_diff) simp
  then have "(2::rat) powi (float_exponent x - 52) / 2 = 2 powi (float_exponent x) / 2 ^ 53"
    by simp
  also have "\<dots> \<le> \<bar>x\<bar> / 2 ^ 53"
    using b(1) by (simp add: divide_right_mono)
  finally show ?thesis
    using double_round_error [of x] unfolding m by linarith
qed

lemma double_round_nonneg: "0 \<le> x \<Longrightarrow> 0 \<le> double_round x"
proof -
  assume x: "0 \<le> x"
  define p where "p = max (float_exponent x - 52) (- 1074)"
  have pp: "0 < (2::rat) powi p" by simp
  then have "0 \<le> x / 2 powi p" using x by simp
  from rhe_mono [OF this] have "0 \<le> round_half_even (x / 2 powi p)"
    using rhe_of_int [of 0] by simp
  then show ?thesis
    using pp by (simp add: double_round_def Let_def p_def)
qed

lemma double_round_finite:
  assumes "\<bar>x\<bar> < 2 ^ 1024 - 2 ^ 970"
  shows "\<bar>double_round x\<bar> < 2 ^ 1024"
proof (cases "x = 0")
  case True
  then show ?thesis by (simp add: double_round_def)
next
  case False
  note b = float_exponent_bounds [OF False]
  have "\<not> 1024 \<le> float_exponent x"
  proof
    assume "1024 \<le> float_exponent x"
    then have "(2::rat) powi 1024 \<le> 2 powi (float_exponent x)"
      by (intro power_int_increasing) simp_all
    then have "(2::rat) ^ 1024 \<le> \<bar>x\<bar>" using b(1) by simp
    then show False using assms by simp
  qed
  then have "max (float_exponent x - 52) (- 1074) \<le> 971" by simp
  then have "(2::rat) powi (max (float_exponent x - 52) (- 1074)) \<le> 2 powi 971"
    by (intro power_int_increasing) simp_all
  then have "\<bar>double_round x - x\<bar> \<le> 2 powi 971 / 2"
    using double_round_error [of x] by linarith
  moreover have "(2::rat) powi 971 / 2 = 2 ^ 970" by simp
  ultimately have "\<bar>double_round x - x\<bar> \<le> 2 ^ 970" by simp
  then show ?thesis using assms by linarith
qed

lemma powi_shift: "(2::rat) powi (p + numeral k) = 2 powi p * 2 ^ numeral k"
  by (simp add: power_int_add)

lemma powi_pred1: "(2::rat) powi (p - 1) = 2 powi p / 2"
  by (simp add: power_int_diff)

lemma double_round_at:
  assumes "2 powi (p + 52) \<le> x" "x < 2 powi (p + 52 + 1)" "- 1074 \<le> p"
    and "of_int K - 1 / 2 < x / 2 powi p" "x / 2 powi p < of_int K + 1 / 2"
  shows "double_round x = of_int K * 2 powi p"
proof -
  have "0 < (2::rat) powi (p + 52)" by simp
  then have "0 < x" using assms(1) by linarith
  then have "\<bar>x\<bar> = x" by simp
  with assms(1,2) have "float_exponent x = p + 52"
    by (intro float_exponent_eq) simp_all
  then have "max (float_exponent x - 52) (- 1074) = p"
    using assms(3) by simp
  then show ?thesis
    using rhe_near [OF assms(4,5)] by (simp add: double_round_def Let_def)
qed

lemma powi_shift52: "(2::rat) powi (p + 52) = 2 powi p * 2 ^ 52"
  by (rule powi_shift)

lemma powi_shift53: "(2::rat) powi (p + 52 + 1) = 2 powi p * 2 ^ 53"
proof -
  have "p + 52 + 1 = p + 53" by simp
  then show ?thesis by (simp only: powi_shift)
qed

lemma double_round_near:
  assumes K: "2 ^ 52 \<le> K" "K < 2 ^ 53" and p: "- 1074 < p"
    and lo: "of_int K - of_int K / 2 ^ 54 < q" and hi: "q \<le> of_int K + of_int K / 2 ^ 54"
  shows "double_round (q * 2 powi p) = of_int K * 2 powi p"
proof -
  define x where "x = q * 2 powi p"
  have pp: "0 < (2::rat) powi p" by simp
  have Kr: "(2::rat) ^ 52 \<le> of_int K" "of_int K + 1 \<le> (2::rat) ^ 53"
  proof -
    have "(of_int (2 ^ 52) :: rat) \<le> of_int K"
      using K(1) by (simp only: of_int_le_iff)
    then show "(2::rat) ^ 52 \<le> of_int K" by simp
    have "K + 1 \<le> 2 ^ 53" using K(2) by simp
    then have "(of_int (K + 1) :: rat) \<le> of_int (2 ^ 53)"
      by (simp only: of_int_le_iff)
    then show "of_int K + 1 \<le> (2::rat) ^ 53" by simp
  qed
  have xq: "x / 2 powi p = q" using pp by (simp add: x_def)
  show ?thesis
  proof (cases "2 ^ 52 \<le> q")
    case True
    have "2 powi p * 2 ^ 52 \<le> 2 powi p * q"
      using True pp by (simp only: mult_le_cancel_left_pos)
    then have a: "2 powi (p + 52) \<le> x"
      unfolding powi_shift52 x_def by (simp only: mult.commute)
    have "q < 2 ^ 53" using hi Kr by simp
    then have "2 powi p * q < 2 powi p * 2 ^ 53"
      using pp by (simp only: mult_less_cancel_left_pos)
    then have b: "x < 2 powi (p + 52 + 1)"
      unfolding powi_shift53 x_def by (simp only: mult.commute)
    have c: "of_int K - 1 / 2 < x / 2 powi p" "x / 2 powi p < of_int K + 1 / 2"
      unfolding xq using lo hi Kr by simp_all
    show ?thesis
      using double_round_at [OF a b _ c] p by (simp add: x_def)
  next
    case False
    have Keq: "of_int K = (2::rat) ^ 52"
    proof (rule ccontr)
      assume "of_int K \<noteq> (2::rat) ^ 52"
      then have "K \<noteq> 2 ^ 52"
        by (metis of_int_numeral of_int_power)
      then have "2 ^ 52 + 1 \<le> K" using K(1) by simp
      then have "(of_int (2 ^ 52 + 1) :: rat) \<le> of_int K"
        by (simp only: of_int_le_iff)
      then have "(2::rat) ^ 52 + 1 \<le> of_int K" by simp
      then show False using lo False Kr by simp
    qed
    have q1: "2 ^ 52 - 1 / 4 < q" "q < 2 ^ 52"
      using lo False unfolding Keq by simp_all
    have pp1: "0 < (2::rat) powi (p - 1)" by simp
    have x2: "x = 2 powi (p - 1) * (2 * q)"
      by (simp add: x_def powi_pred1)
    have "2 ^ 52 \<le> 2 * q" "2 * q < 2 ^ 53" using q1 by simp_all
    then have "2 powi (p - 1) * 2 ^ 52 \<le> 2 powi (p - 1) * (2 * q)"
              "2 powi (p - 1) * (2 * q) < 2 powi (p - 1) * 2 ^ 53"
      using pp1 by (simp_all only: mult_le_cancel_left_pos mult_less_cancel_left_pos)
    then have a: "2 powi (p - 1 + 52) \<le> x" and b: "x < 2 powi (p - 1 + 52 + 1)"
      unfolding powi_shift52 powi_shift53 x2 by simp_all
    have xq': "x / 2 powi (p - 1) = 2 * q"
      using pp1 unfolding x2 by simp
    have c: "of_int (2 * K) - 1 / 2 < x / 2 powi (p - 1)"
            "x / 2 powi (p - 1) < of_int (2 * K) + 1 / 2"
      unfolding xq' using q1 Keq by simp_all
    have "double_round x = of_int (2 * K) * 2 powi (p - 1)"
      using double_round_at [OF a b _ c] p by simp
    then show ?thesis by (simp add: x_def powi_pred1)
  qed
qed

lemma normalise_significand:
  assumes "0 < m" "m < (2::int) ^ 53"
  shows "\<exists>i::nat. 2 ^ 52 \<le> m * 2 ^ i \<and> m * 2 ^ i < 2 ^ 53"
proof -
  define k where "k = floorlog 2 (nat m)"
  have n: "0 < nat m" using assms by simp
  from floorlog_bounds [of "nat m" 2] n have b: "2 ^ (k - 1) \<le> nat m" "nat m < 2 ^ k"
    by (simp_all add: k_def)
  have "k \<noteq> 0" using n by (simp add: k_def floorlog_eq_zero_iff)
  then have k: "0 < k" by simp
  have "int (2 ^ (k - 1)) \<le> int (nat m)" "int (nat m) < int (2 ^ k)"
    using b by (simp_all only: of_nat_le_iff of_nat_less_iff)
  then have bi: "2 ^ (k - 1) \<le> m" "m < 2 ^ k"
    using assms by simp_all
  have "\<not> 53 < k"
  proof
    assume "53 < k"
    then have "53 \<le> k - 1" by simp
    then have "(2::int) ^ 53 \<le> 2 ^ (k - 1)"
      by (intro power_increasing) simp_all
    then show False using bi assms by linarith
  qed
  then have k53: "k \<le> 53" by simp
  have "(2::int) ^ (k - 1) * 2 ^ (53 - k) = 2 ^ 52"
    using k k53 by (simp flip: power_add)
  moreover have "(2::int) ^ (k - 1) * 2 ^ (53 - k) \<le> m * 2 ^ (53 - k)"
    using bi by (intro mult_right_mono) simp_all
  ultimately have l: "2 ^ 52 \<le> m * 2 ^ (53 - k)" by simp
  have "(2::int) ^ k * 2 ^ (53 - k) = 2 ^ 53"
    using k53 by (simp flip: power_add)
  moreover have "m * 2 ^ (53 - k) < 2 ^ k * 2 ^ (53 - k)"
    using bi by (intro mult_strict_right_mono) simp_all
  ultimately have u: "m * 2 ^ (53 - k) < 2 ^ 53" by simp
  show ?thesis using l u by blast
qed

lemma double_round_representable:
  fixes m :: int and j :: nat
  assumes m: "0 < m" "m < 2 ^ 53"
    and lo: "of_int m * 2 ^ j - of_int m * 2 ^ j / 2 ^ 54 < x"
    and hi: "x \<le> of_int m * 2 ^ j + of_int m * 2 ^ j / 2 ^ 54"
  shows "double_round x = of_int m * 2 ^ j"
proof -
  from normalise_significand [OF m] obtain i :: nat where
    i: "2 ^ 52 \<le> m * 2 ^ i" "m * 2 ^ i < 2 ^ 53" by blast
  have i52: "i \<le> 52"
  proof (rule ccontr)
    assume "\<not> i \<le> 52"
    then have "53 \<le> i" by simp
    then have "(2::int) ^ 53 \<le> 2 ^ i" by (intro power_increasing) simp_all
    moreover have "1 * 2 ^ i \<le> m * 2 ^ i"
      using m by (intro mult_right_mono) simp_all
    then have "(2::int) ^ i \<le> m * 2 ^ i" by simp
    ultimately show False using i(2) by linarith
  qed
  define K where "K = m * 2 ^ i"
  define p where "p = int j - int i"
  define c :: rat where "c = 2 ^ i / 2 ^ j"
  define M :: rat where "M = of_int m * 2 ^ j"
  have c: "0 < c" by (simp add: c_def)
  have pw: "(2::rat) powi p = 2 ^ j / 2 ^ i"
    unfolding p_def by (simp add: power_int_diff)
  have cp: "c * 2 powi p = 1" by (simp add: c_def pw)
  have KM: "of_int K = M * c" by (simp add: K_def M_def c_def)
  have p: "- 1074 < p" using i52 by (simp add: p_def)
  have "(M - M / 2 ^ 54) * c < x * c"
    using lo c unfolding M_def by (simp only: mult_less_cancel_right_pos)
  then have lo': "of_int K - of_int K / 2 ^ 54 < x * c"
    unfolding KM by (simp add: algebra_simps)
  have "x * c \<le> (M + M / 2 ^ 54) * c"
    using hi c unfolding M_def by (simp only: mult_le_cancel_right_pos)
  then have hi': "x * c \<le> of_int K + of_int K / 2 ^ 54"
    unfolding KM by (simp add: algebra_simps)
  have "double_round (x * c * 2 powi p) = of_int K * 2 powi p"
    using i p lo' hi' unfolding K_def [symmetric] by (rule double_round_near)
  moreover have "x * c * 2 powi p = x" using cp by (simp add: mult.assoc)
  moreover have "of_int K * 2 powi p = M" unfolding KM using cp by (simp add: mult.assoc)
  ultimately show ?thesis by (simp add: M_def)
qed

lemma double_round_exact:
  fixes m :: int and j :: nat
  assumes "0 < m" "m < 2 ^ 53"
  shows "double_round (of_int m * 2 ^ j) = of_int m * 2 ^ j"
proof -
  have "0 < (of_int m :: rat) * 2 ^ j" using assms by simp
  then show ?thesis
    using assms by (intro double_round_representable) simp_all
qed

lemma rhe_tie:
  assumes "q = of_int K + 1 / 2"
  shows "round_half_even q = (if even K then K else K + 1)"
proof -
  have "\<lfloor>q\<rfloor> = K" unfolding assms by linarith
  then show ?thesis
    by (simp add: round_half_even_def Let_def assms)
qed

lemma double_round_tie:
  assumes "2 powi (p + 52) \<le> x" "x < 2 powi (p + 52 + 1)" "- 1074 \<le> p"
    and "x / 2 powi p = of_int K + 1 / 2"
  shows "double_round x = of_int (if even K then K else K + 1) * 2 powi p"
proof -
  have "0 < (2::rat) powi (p + 52)" by simp
  then have "0 < x" using assms(1) by linarith
  then have "\<bar>x\<bar> = x" by simp
  with assms(1,2) have "float_exponent x = p + 52"
    by (intro float_exponent_eq) simp_all
  then have "max (float_exponent x - 52) (- 1074) = p"
    using assms(3) by simp
  then show ?thesis
    using rhe_tie [OF assms(4)] by (simp add: double_round_def Let_def)
qed

text \<open>The doubles nearest to \<open>0.20\<close>, \<open>0.30\<close> and \<open>2/3\<close>.\<close>

lemma dr_fifth: "double_round (20 / 100) = 3602879701896397 / 18014398509481984"
  by (subst double_round_at [where p = "- 55" and K = 7205759403792794]) simp_all

lemma dr_three_tenths: "double_round (30 / 100) = 5404319552844595 / 18014398509481984"
  by (subst double_round_at [where p = "- 54" and K = 5404319552844595]) simp_all

lemma dr_two_thirds: "double_round (2 / 3) = 6004799503160661 / 9007199254740992"
  by (subst double_round_at [where p = "- 53" and K = 6004799503160661]) simp_all

lemma double_round_nonpos: "x \<le> 0 \<Longrightarrow> double_round x \<le> 0"
proof -
  assume x: "x \<le> 0"
  define p where "p = max (float_exponent x - 52) (- 1074)"
  have pp: "0 < (2::rat) powi p" by simp
  then have "x / 2 powi p \<le> 0" using x by (simp add: divide_le_0_iff)
  from rhe_mono [OF this] have "round_half_even (x / 2 powi p) \<le> 0"
    by simp
  then have "(of_int (round_half_even (x / 2 powi p)) :: rat) \<le> 0" by simp
  then show ?thesis
    using pp by (simp add: double_round_def Let_def p_def mult_le_0_iff)
qed

lemma double_round_abs_error:
  assumes "\<bar>x\<bar> < 2 ^ 1024"
  shows "\<bar>double_round x - x\<bar> \<le> 2 ^ 970"
proof (cases "x = 0")
  case True
  then show ?thesis by (simp add: double_round_def)
next
  case False
  note b = float_exponent_bounds [OF False]
  have "\<not> 1024 \<le> float_exponent x"
  proof
    assume "1024 \<le> float_exponent x"
    then have "(2::rat) powi 1024 \<le> 2 powi (float_exponent x)"
      by (intro power_int_increasing) simp_all
    then have "(2::rat) ^ 1024 \<le> \<bar>x\<bar>" using b(1) by simp
    then show False using assms by simp
  qed
  then have "max (float_exponent x - 52) (- 1074) \<le> 971" by simp
  then have "(2::rat) powi (max (float_exponent x - 52) (- 1074)) \<le> 2 powi 971"
    by (intro power_int_increasing) simp_all
  then have "\<bar>double_round x - x\<bar> \<le> 2 powi 971 / 2"
    using double_round_error [of x] by linarith
  moreover have "(2::rat) powi 971 / 2 = 2 ^ 970" by simp
  ultimately show ?thesis by simp
qed

subsection \<open>Operations on finite doubles\<close>

lemma double_of_rat_finite:
  assumes "\<bar>x\<bar> < 2 ^ 1024 - 2 ^ 970"
  shows "double_of_rat x = Finite (double_round x)" "\<bar>double_round x\<bar> < 2 ^ 1024"
proof -
  show b: "\<bar>double_round x\<bar> < 2 ^ 1024"
    using assms by (rule double_round_finite)
  then have "\<not> 2 ^ 1024 \<le> double_round x" "\<not> double_round x \<le> - (2 ^ 1024)"
    by linarith+
  then show "double_of_rat x = Finite (double_round x)"
    by (simp add: double_of_rat_def Let_def)
qed

lemma float_of_int_finite:
  assumes "\<bar>of_int n :: rat\<bar> < 2 ^ 1024 - 2 ^ 970"
  shows "float_of_int n = Inr (Finite (double_round (of_int n)))"
  using double_of_rat_finite(1) [OF assms] by (simp add: float_of_int_def)

lemma IMPLEMENTATION_PCT_eq:
  "IMPLEMENTATION_PCT = Finite (3602879701896397 / 18014398509481984)"
  unfolding IMPLEMENTATION_PCT_def float_literal_def double_of_rat_def dr_fifth by simp

lemma SAVINGS_PCT_eq:
  "SAVINGS_PCT = Finite (5404319552844595 / 18014398509481984)"
  unfolding SAVINGS_PCT_def float_literal_def double_of_rat_def dr_three_tenths by simp



subsection \<open>The financial summary\<close>

lemma license_nonneg: "0 \<le> get_default TECH_LICENSE_COSTS t 0"
  by (simp add: get_default_def TECH_LICENSE_COSTS_def)

lemma distinct_ALL_TECHS: "distinct ALL_TECHS"
  by (simp add: ALL_TECHS_eq)

lemma license_total_catalog: "license_total ALL_TECHS = 42000"
  by (simp add: ALL_TECHS_eq get_default_def TECH_LICENSE_COSTS_def)

lemma license_total_set:
  "distinct S \<Longrightarrow> license_total S = (\<Sum>t \<in> set S. get_default TECH_LICENSE_COSTS t 0)"
  by (rule sum_list_distinct_conv_sum_set)

lemma license_total_bounds:
  assumes "distinct S" "set S \<subseteq> set ALL_TECHS"
  shows "0 \<le> license_total S" "license_total S \<le> 42000"
proof -
  show "0 \<le> license_total S"
    by (intro sum_list_nonneg) (auto simp: license_nonneg)
  have "(\<Sum>t \<in> set S. get_default TECH_LICENSE_COSTS t 0)
          \<le> (\<Sum>t \<in> set ALL_TECHS. get_default TECH_LICENSE_COSTS t 0)"
    using assms(2) by (intro sum_mono2) (simp_all add: license_nonneg)
  then show "license_total S \<le> 42000"
    using license_total_set [OF assms(1)] license_total_set [OF distinct_ALL_TECHS]
          license_total_catalog by simp
qed

lemma calculate_costs_unfold:
  assumes "float_of_int (h * 60000) = Inr n" "float_of_int (license_total S) = Inr t"
  shows "calculate_costs h S =
     Inr \<lparr>headcount_cost = h * 60000,
          implementation_cost = float_mul n IMPLEMENTATION_PCT,
          tech_cost = license_total S,
          annual_savings = float_mul n SAVINGS_PCT,
          net_annual_cost = float_add (float_sub n (float_mul n SAVINGS_PCT)) t,
          payback_years =
            (if float_bool (float_mul n SAVINGS_PCT) \<and> float_gt0 (float_mul n SAVINGS_PCT)
             then (case float_div (float_mul n IMPLEMENTATION_PCT) (float_mul n SAVINGS_PCT) of
                     Inl e \<Rightarrow> None | Inr q \<Rightarrow> Some q)
             else None)\<rparr>"
  using assms
  by (simp add: calculate_costs_def ANNUAL_COST_PER_FTE_def int_mul_float_def
                int_sub_float_def float_add_int_def Let_def)

lemma calculate_costs_overflow:
  assumes "float_of_int (h * 60000) = Inl e"
  shows "calculate_costs h S = Inl e"
  using assms
  by (simp add: calculate_costs_def ANNUAL_COST_PER_FTE_def int_mul_float_def Let_def)

lemma float_of_int_exact:
  fixes m :: int and j :: nat
  assumes "0 < m" "m < 2 ^ 53" "j \<le> 5"
  shows "float_of_int (m * 2 ^ j) = Inr (Finite (of_int m * 2 ^ j))"
proof -
  have "(2::rat) ^ j \<le> 2 ^ 5" using assms(3) by (intro power_increasing) simp_all
  moreover have "(of_int m :: rat) < of_int (2 ^ 53)"
    using assms(2) by (simp only: of_int_less_iff)
  moreover have "0 < (of_int m :: rat)" using assms(1) by simp
  ultimately have "(of_int m :: rat) * 2 ^ j < 2 ^ 53 * 2 ^ 5"
    by (intro mult_less_le_imp_less) simp_all
  then have "\<bar>of_int (m * 2 ^ j) :: rat\<bar> < 2 ^ 1024 - 2 ^ 970"
    using assms(1) by (simp add: abs_mult)
  from float_of_int_finite [OF this] show ?thesis
    using double_round_exact [OF assms(1,2), of j] by simp
qed

lemma float_of_int_small:
  assumes "0 \<le> m" "m < 2 ^ 53"
  shows "float_of_int m = Inr (Finite (of_int m))"
proof (cases "m = 0")
  case True
  then show ?thesis
    by (simp add: float_of_int_def double_of_rat_def double_round_def)
next
  case False
  then have "0 < m" using assms by simp
  from float_of_int_exact [OF this assms(2), of 0] show ?thesis by simp
qed

lemma mul_implementation_exact:
  fixes m :: int and j :: nat
  assumes "0 < m" "m < 2 ^ 53"
  shows "double_round (of_int (5 * m) * 2 ^ j * (3602879701896397 / 18014398509481984))
           = of_int m * 2 ^ j"
proof -
  define M :: rat where "M = of_int m * 2 ^ j"
  have M: "0 < M" using assms by (simp add: M_def)
  have x: "of_int (5 * m) * 2 ^ j * (3602879701896397 / 18014398509481984)
             = M + M / 2 ^ 54"
    by (simp add: M_def field_simps)
  show ?thesis
    unfolding x M_def [symmetric]
    unfolding M_def
    using M by (intro double_round_representable [OF assms]) (simp_all add: M_def)
qed

lemma mul_savings_exact:
  fixes m :: int and j :: nat
  assumes "0 < m" "3 * m < 2 ^ 53"
  shows "double_round (of_int (10 * m) * 2 ^ j * (5404319552844595 / 18014398509481984))
           = of_int (3 * m) * 2 ^ j"
proof -
  define M :: rat where "M = of_int (3 * m) * 2 ^ j"
  have M: "0 < M" using assms by (simp add: M_def)
  have x: "of_int (10 * m) * 2 ^ j * (5404319552844595 / 18014398509481984)
             = M - M / (3 * 2 ^ 53)"
    by (simp add: M_def field_simps)
  have m3: "0 < 3 * m" using assms by simp
  show ?thesis
    unfolding x
    unfolding M_def
    using M by (intro double_round_representable [OF m3 assms(2)]) (simp_all add: M_def)
qed

lemma double_of_rat_eq:
  assumes "double_round x = y" "\<bar>y\<bar> < 2 ^ 1024"
  shows "double_of_rat x = Finite y"
proof -
  have "\<not> 2 ^ 1024 \<le> y" "\<not> y \<le> - (2 ^ 1024)"
    using assms(2) by linarith+
  then show ?thesis
    using assms(1) by (simp add: double_of_rat_def Let_def)
qed

lemma of_int_less_pow2:
  fixes m :: int
  assumes "m < 2 ^ k"
  shows "(of_int m :: rat) < 2 ^ k"
proof -
  have "(of_int m :: rat) < of_int (2 ^ k)"
    using assms by (simp only: of_int_less_iff)
  then show ?thesis by simp
qed

text \<open>
  While \<open>60000 * h\<close> is below \<open>2^58\<close> the conversion and the two products are exact:
  \<open>60000 * h\<close>, \<open>12000 * h\<close> and \<open>18000 * h\<close> have at most 53 significant bits.
\<close>

lemma headcount_cost_exact:
  assumes "0 < h" "60000 * h < (2::int) ^ 58"
  shows "float_of_int (h * 60000) = Inr (Finite (of_int (60000 * h)))"
proof -
  have m: "0 < 1875 * h" "1875 * h < 2 ^ 53" using assms by simp_all
  have "h * 60000 = (1875 * h) * 2 ^ 5" by simp
  then show ?thesis
    using float_of_int_exact [OF m, of 5] by (simp add: mult.commute)
qed

lemma implementation_cost_exact:
  assumes "0 < h" "60000 * h < (2::int) ^ 58"
  shows "float_mul (Finite (of_int (60000 * h))) IMPLEMENTATION_PCT
           = Finite (of_int (12000 * h))"
proof -
  have m: "0 < 375 * h" "375 * h < 2 ^ 53" using assms by simp_all
  have "(of_int (60000 * h) :: rat) = of_int (5 * (375 * h)) * 2 ^ 5" by simp
  then have "double_round (of_int (60000 * h) * (3602879701896397 / 18014398509481984))
               = of_int (375 * h) * 2 ^ 5"
    using mul_implementation_exact [OF m, of 5] by (simp only:)
  moreover have "(of_int (375 * h) :: rat) * 2 ^ 5 = of_int (12000 * h)" by simp
  moreover have "\<bar>of_int (12000 * h) :: rat\<bar> < 2 ^ 1024"
  proof -
    have "12000 * h < 2 ^ 58" using assms by simp
    from of_int_less_pow2 [OF this] show ?thesis using assms(1) by simp
  qed
  ultimately show ?thesis
    unfolding IMPLEMENTATION_PCT_eq float_mul.simps
    by (intro double_of_rat_eq) simp_all
qed

lemma annual_savings_exact:
  assumes "0 < h" "60000 * h < (2::int) ^ 58"
  shows "float_mul (Finite (of_int (60000 * h))) SAVINGS_PCT
           = Finite (of_int (18000 * h))"
proof -
  have m: "0 < 375 * h" "3 * (375 * h) < 2 ^ 53" using assms by simp_all
  have "(of_int (60000 * h) :: rat) = of_int (10 * (375 * h)) * 2 ^ 4" by simp
  then have "double_round (of_int (60000 * h) * (5404319552844595 / 18014398509481984))
               = of_int (3 * (375 * h)) * 2 ^ 4"
    using mul_savings_exact [OF m, of 4] by (simp only:)
  moreover have "(of_int (3 * (375 * h)) :: rat) * 2 ^ 4 = of_int (18000 * h)" by simp
  moreover have "\<bar>of_int (18000 * h) :: rat\<bar> < 2 ^ 1024"
  proof -
    have "18000 * h < 2 ^ 58" using assms by simp
    from of_int_less_pow2 [OF this] show ?thesis using assms(1) by simp
  qed
  ultimately show ?thesis
    unfolding SAVINGS_PCT_eq float_mul.simps
    by (intro double_of_rat_eq) simp_all
qed

lemma payback_exact:
  assumes "0 < h"
  shows "float_div (Finite (of_int (12000 * h))) (Finite (of_int (18000 * h)))
           = Inr (Finite (6004799503160661 / 9007199254740992))"
proof -
  have "(of_int (12000 * h) :: rat) / of_int (18000 * h) = 2 / 3"
    using assms by simp
  moreover have "double_of_rat (2 / 3) = Finite (6004799503160661 / 9007199254740992)"
    by (rule double_of_rat_eq [OF dr_two_thirds]) simp
  ultimately show ?thesis using assms by simp
qed

lemma license_total_convertible:
  assumes "distinct S" "set S \<subseteq> set ALL_TECHS"
  shows "float_of_int (license_total S) = Inr (Finite (of_int (license_total S)))"
  using license_total_bounds [OF assms] by (intro float_of_int_small) simp_all

lemma net_annual_cost_exact:
  assumes "0 < h" "60000 * h < (2::int) ^ 53" "0 \<le> t" "t \<le> 42000"
  shows "float_add (float_sub (Finite (of_int (60000 * h))) (Finite (of_int (18000 * h))))
                   (Finite (of_int t))
           = Finite (of_int (42000 * h + t))"
proof -
  have m: "0 < 42000 * h" "42000 * h < 2 ^ 53" using assms by simp_all
  have "double_round (of_int (42000 * h)) = of_int (42000 * h)"
    using double_round_exact [OF m, of 0] by simp
  moreover have "\<bar>of_int (42000 * h) :: rat\<bar> < 2 ^ 1024"
    using of_int_less_pow2 [OF m(2)] m(1) by simp
  ultimately have "double_of_rat (of_int (42000 * h)) = Finite (of_int (42000 * h))"
    by (rule double_of_rat_eq)
  moreover have "(of_int (60000 * h) :: rat) + - of_int (18000 * h) = of_int (42000 * h)"
    by simp
  ultimately have d: "float_sub (Finite (of_int (60000 * h))) (Finite (of_int (18000 * h)))
                        = Finite (of_int (42000 * h))"
    unfolding float_sub_def float_neg.simps float_add.simps by (simp only:)
  have k: "0 < 42000 * h + t" "42000 * h + t < 2 ^ 53" using assms by simp_all
  have "double_round (of_int (42000 * h + t)) = of_int (42000 * h + t)"
    using double_round_exact [OF k, of 0] by simp
  moreover have "\<bar>of_int (42000 * h + t) :: rat\<bar> < 2 ^ 1024"
    using of_int_less_pow2 [OF k(2)] k(1) by simp
  ultimately have "double_of_rat (of_int (42000 * h + t)) = Finite (of_int (42000 * h + t))"
    by (rule double_of_rat_eq)
  moreover have "(of_int (42000 * h) :: rat) + of_int t = of_int (42000 * h + t)"
    by simp
  ultimately show ?thesis
    unfolding d float_add.simps by (simp only:)
qed

lemma calculate_costs_exact:
  assumes "0 < h" "60000 * h < (2::int) ^ 53"
    and "0 \<le> license_total S" "license_total S \<le> 42000"
  shows "calculate_costs h S =
     Inr \<lparr>headcount_cost = h * 60000,
          implementation_cost = Finite (of_int (12000 * h)),
          tech_cost = license_total S,
          annual_savings = Finite (of_int (18000 * h)),
          net_annual_cost = Finite (of_int (42000 * h + license_total S)),
          payback_years = Some (Finite (6004799503160661 / 9007199254740992))\<rparr>"
proof -
  have h58: "60000 * h < 2 ^ 58" using assms(2) by simp
  have t: "float_of_int (license_total S) = Inr (Finite (of_int (license_total S)))"
    using assms(3,4) by (intro float_of_int_small) simp_all
  have pos: "(0::rat) < of_int (18000 * h)" using assms(1) by simp
  show ?thesis
    unfolding calculate_costs_unfold [OF headcount_cost_exact [OF assms(1) h58] t]
              implementation_cost_exact [OF assms(1) h58]
              annual_savings_exact [OF assms(1) h58]
              net_annual_cost_exact [OF assms]
              payback_exact [OF assms(1)]
    using pos by simp
qed

lemma calculate_costs_sample:
  "calculate_costs 25 [''RPA'', ''AI''] =
     Inr \<lparr>headcount_cost = 1500000, implementation_cost = Finite 300000,
          tech_cost = 17000, annual_savings = Finite 450000,
          net_annual_cost = Finite 1067000,
          payback_years = Some (Finite (6004799503160661 / 9007199254740992))\<rparr>"
proof -
  have t: "license_total [''RPA'', ''AI''] = 17000"
    by (simp add: get_default_def TECH_LICENSE_COSTS_def)
  show ?thesis
    using calculate_costs_exact [of 25 "[''RPA'', ''AI'']"] unfolding t by simp
qed



text \<open>
  Beyond \<open>2^58\<close> the operations round. As long as \<open>60000 * h\<close> converts to a double,
  that is, below \<open>2^1024 - 2^970\<close>, every intermediate value stays finite.
\<close>

lemma convert_in_range:
  fixes h :: int
  assumes "\<bar>60000 * h\<bar> < 2 ^ 1024 - 2 ^ 970"
  shows "float_of_int (h * 60000) = Inr (Finite (double_round (of_int (60000 * h))))"
    and "\<bar>double_round (of_int (60000 * h))\<bar> < 2 ^ 1024"
proof -
  have "(of_int \<bar>60000 * h\<bar> :: rat) < of_int (2 ^ 1024 - 2 ^ 970)"
    using assms by (simp only: of_int_less_iff)
  then have b: "\<bar>of_int (60000 * h) :: rat\<bar> < 2 ^ 1024 - 2 ^ 970"
    by simp
  from float_of_int_finite [OF b]
  show "float_of_int (h * 60000) = Inr (Finite (double_round (of_int (60000 * h))))"
    by (simp add: mult.commute)
  from double_round_finite [OF b]
  show "\<bar>double_round (of_int (60000 * h))\<bar> < 2 ^ 1024" .
qed

lemma float_mul_fraction:
  assumes "\<bar>n\<bar> < 2 ^ 1024" "\<bar>c\<bar> \<le> 1 / 2"
  shows "float_mul (Finite n) (Finite c) = Finite (double_round (n * c))"
proof -
  have "\<bar>n\<bar> * \<bar>c\<bar> \<le> \<bar>n\<bar> * (1 / 2)"
    using assms(2) by (intro mult_left_mono) simp_all
  then have "\<bar>n * c\<bar> < 2 ^ 1024 - 2 ^ 970"
    using assms(1) by (simp add: abs_mult)
  from double_of_rat_finite(1) [OF this] show ?thesis by simp
qed

lemma convert_positive:
  fixes h :: int
  assumes "0 < h"
  shows "1 \<le> double_round (of_int (60000 * h))"
proof -
  define N :: rat where "N = of_int (60000 * h)"
  have "(of_int (60000 * 1) :: rat) \<le> of_int (60000 * h)"
    using assms by (simp only: of_int_le_iff)
  then have N: "60000 \<le> N" by (simp add: N_def)
  have "(2::rat) powi (- 1022) \<le> 1" by (simp add: power_int_minus field_simps)
  then have "2 powi (- 1022) \<le> \<bar>N\<bar>" using N by linarith
  from double_round_relative_error [OF this]
  have "\<bar>double_round N - N\<bar> \<le> N / 2 ^ 53" using N by simp
  then have "N - N / 2 ^ 53 \<le> double_round N" by linarith
  moreover have "1 \<le> N - N / 2 ^ 53" using N by simp
  ultimately show ?thesis unfolding N_def [symmetric] by linarith
qed

lemma savings_bounds:
  assumes "1 \<le> n"
  shows "n / 4 \<le> double_round (n * (5404319552844595 / 18014398509481984))"
    and "double_round (n * (5404319552844595 / 18014398509481984)) \<le> n / 2"
proof -
  define x where "x = n * (5404319552844595 / 18014398509481984)"
  have x: "1 / 4 \<le> x" "n / 4 + n / 2 ^ 50 \<le> x" "x \<le> n / 2 - n / 2 ^ 50"
    using assms by (simp_all add: x_def)
  have "(2::rat) powi (- 1022) \<le> 1 / 4" by (simp add: power_int_minus field_simps)
  then have "2 powi (- 1022) \<le> \<bar>x\<bar>" using x(1) by linarith
  from double_round_relative_error [OF this]
  have e: "\<bar>double_round x - x\<bar> \<le> x / 2 ^ 53" using x(1) by simp
  have "x / 2 ^ 53 \<le> n / 2 ^ 50" using x(3) assms by simp
  then show "n / 4 \<le> double_round (n * (5404319552844595 / 18014398509481984))"
    and "double_round (n * (5404319552844595 / 18014398509481984)) \<le> n / 2"
    using e x(2,3) unfolding x_def [symmetric] by linarith+
qed



lemma pct_small:
  "\<bar>3602879701896397 / 18014398509481984 :: rat\<bar> \<le> 1 / 2"
  "\<bar>5404319552844595 / 18014398509481984 :: rat\<bar> \<le> 1 / 2"
  by simp_all

lemma summary_in_range:
  fixes h :: int
  assumes "\<bar>60000 * h\<bar> < 2 ^ 1024 - 2 ^ 970" "distinct S" "set S \<subseteq> set ALL_TECHS"
  defines "n \<equiv> double_round (of_int (60000 * h))"
  defines "i \<equiv> double_round (n * (3602879701896397 / 18014398509481984))"
  defines "s \<equiv> double_round (n * (5404319552844595 / 18014398509481984))"
  shows "\<exists>r. calculate_costs h S = Inr r
           \<and> headcount_cost r = h * 60000
           \<and> implementation_cost r = Finite i
           \<and> tech_cost r = license_total S
           \<and> annual_savings r = Finite s
           \<and> net_annual_cost r = float_add (float_sub (Finite n) (Finite s))
                                             (Finite (of_int (license_total S)))
           \<and> payback_years r = (if 0 < s then Some (double_of_rat (i / s)) else None)"
proof -
  note c = convert_in_range [OF assms(1), folded n_def]
  have i: "float_mul (Finite n) IMPLEMENTATION_PCT = Finite i"
    unfolding IMPLEMENTATION_PCT_eq i_def by (rule float_mul_fraction [OF c(2) pct_small(1)])
  have s: "float_mul (Finite n) SAVINGS_PCT = Finite s"
    unfolding SAVINGS_PCT_eq s_def by (rule float_mul_fraction [OF c(2) pct_small(2)])
  show ?thesis
    unfolding calculate_costs_unfold [OF c(1) license_total_convertible [OF assms(2,3)]] i s
    by auto
qed

text \<open>
  Claim C4, as the code has it. Python integers are unbounded and the three mixed
  operations on \<open>headcount_cost\<close> convert it to a double outside the \<open>try\<close>, so the
  call returns only while \<open>60000 * h\<close> converts, that is, while its magnitude is below
  \<open>2^1024 - 2^970\<close>. For every such headcount (of either sign) and every subset \<open>S\<close> of
  the catalog, \<open>calculate_costs\<close> returns; \<open>payback_years\<close> is \<open>None\<close> exactly when
  \<open>annual_savings\<close> is at most zero, and when \<open>annual_savings\<close> is positive it is the
  correctly rounded quotient \<open>implementation_cost / annual_savings\<close>, the division
  not raising. For a positive headcount \<open>annual_savings\<close> is positive.
\<close>

theorem payback_years_defined:
  fixes h :: int
  assumes "\<bar>60000 * h\<bar> < 2 ^ 1024 - 2 ^ 970" "distinct S" "set S \<subseteq> set ALL_TECHS"
  shows "\<exists>r i s. calculate_costs h S = Inr r
           \<and> implementation_cost r = Finite i \<and> annual_savings r = Finite s
           \<and> (payback_years r = None \<longleftrightarrow> s \<le> 0)
           \<and> (0 < s \<longrightarrow> float_div (Finite i) (Finite s) = Inr (double_of_rat (i / s))
                         \<and> payback_years r = Some (double_of_rat (i / s)))
           \<and> (0 < h \<longrightarrow> 0 < s)"
proof -
  define n where "n = double_round (of_int (60000 * h))"
  define i where "i = double_round (n * (3602879701896397 / 18014398509481984))"
  define s where "s = double_round (n * (5404319552844595 / 18014398509481984))"
  from summary_in_range [OF assms, folded n_def, folded i_def s_def]
  obtain r where r: "calculate_costs h S = Inr r"
    "implementation_cost r = Finite i" "annual_savings r = Finite s"
    "payback_years r = (if 0 < s then Some (double_of_rat (i / s)) else None)"
    by blast
  have pos: "0 < s" if "0 < h"
  proof -
    have "1 \<le> n" unfolding n_def using that by (rule convert_positive)
    from savings_bounds(1) [OF this] this show ?thesis
      unfolding s_def by linarith
  qed
  have "payback_years r = None \<longleftrightarrow> s \<le> 0"
    unfolding r(4) by auto
  moreover have "0 < s \<longrightarrow> float_div (Finite i) (Finite s) = Inr (double_of_rat (i / s))
                         \<and> payback_years r = Some (double_of_rat (i / s))"
    unfolding r(4) by auto
  ultimately show ?thesis
    using r(1,2,3) pos
    by - (rule exI [of _ r], rule exI [of _ i], rule exI [of _ s], simp)
qed



text \<open>A headcount of \<open>10^305\<close>: \<open>60000 * h\<close> rounds to a value beyond the largest double.\<close>

lemma dr_overflow:
  "double_round (6000000000000000000000000000000000000000000000000000000000000000000000000000000000000000000000000000000000000000000000000000000000000000000000000000000000000000000000000000000000000000000000000000000000000000000000000000000000000000000000000000000000000000000000000000000000000000000000000000000000000000000000) = 6000000000000000065874381776642732504429538580638710780208640974189455124294689492229799738709681333943674980183270350936695417024588405299698420551888762761876299870175981631141849381975313542600303067969900070705613857572776710657685471747202447487367038210307064906317508173592472396378493142925813387100160"
  by (subst double_round_at [where p = "977" and K = 4697269593771030]) simp_all

lemma float_of_int_overflow: "float_of_int (10 ^ 305 * 60000) = Inl OverflowError"
  by (simp add: float_of_int_def double_of_rat_def dr_overflow)

lemma sample_selection:
  "distinct [''RPA'', ''AI'']" "set [''RPA'', ''AI''] \<subseteq> set ALL_TECHS"
  by (simp_all add: ALL_TECHS_eq)

theorem payback_years_defined_witness:
  "\<bar>60000 * 25\<bar> < (2::int) ^ 1024 - 2 ^ 970
   \<and> distinct [''RPA'', ''AI''] \<and> set [''RPA'', ''AI''] \<subseteq> set ALL_TECHS
   \<and> (\<exists>r i s. calculate_costs 25 [''RPA'', ''AI''] = Inr r
          \<and> implementation_cost r = Finite i \<and> annual_savings r = Finite s
          \<and> 0 < s \<and> payback_years r \<noteq> None
          \<and> payback_years r = Some (double_of_rat (i / s)))"
proof -
  have h: "\<bar>60000 * 25\<bar> < (2::int) ^ 1024 - 2 ^ 970" by simp
  from payback_years_defined [OF h sample_selection]
  obtain r i s where r: "calculate_costs 25 [''RPA'', ''AI''] = Inr r"
    "implementation_cost r = Finite i" "annual_savings r = Finite s"
    "payback_years r = None \<longleftrightarrow> s \<le> 0"
    "0 < s \<longrightarrow> float_div (Finite i) (Finite s) = Inr (double_of_rat (i / s))
                \<and> payback_years r = Some (double_of_rat (i / s))"
    "(0::int) < 25 \<longrightarrow> 0 < s"
    by (elim exE conjE) (rule that, assumption+)
  from r(6) have s: "0 < s" by simp
  with r(4,5) have "payback_years r \<noteq> None" "payback_years r = Some (double_of_rat (i / s))"
    by simp_all
  with r(1,2,3) s h sample_selection show ?thesis by blast
qed

theorem calculate_costs_raises_overflow:
  "calculate_costs (10 ^ 305) [] = Inl OverflowError"
  by (rule calculate_costs_overflow [OF float_of_int_overflow])

text \<open>
  Claim C9, as the code has it. For every headcount \<open>h > 0\<close> with \<open>60000 * h < 2^58\<close>
  (that is, \<open>h \<le> 4803839602528\<close>) and every subset \<open>S\<close> of the catalog, the call
  returns and \<open>payback_years\<close> is present and is the double nearest to \<open>2/3\<close>,
  \<open>6004799503160661 / 2^53\<close>, whatever \<open>h\<close> and \<open>S\<close> are.
\<close>

theorem payback_years_constant:
  fixes h :: int
  assumes "0 < h" "60000 * h < 2 ^ 58" "distinct S" "set S \<subseteq> set ALL_TECHS"
  shows "\<exists>r. calculate_costs h S = Inr r
           \<and> payback_years r = Some (Finite (double_round (2 / 3)))
           \<and> double_round (2 / 3) = 6004799503160661 / 2 ^ 53"
proof -
  have pos: "(0::rat) < of_int (18000 * h)" using assms(1) by simp
  have "calculate_costs h S =
     Inr \<lparr>headcount_cost = h * 60000,
          implementation_cost = Finite (of_int (12000 * h)),
          tech_cost = license_total S,
          annual_savings = Finite (of_int (18000 * h)),
          net_annual_cost =
            float_add (float_sub (Finite (of_int (60000 * h))) (Finite (of_int (18000 * h))))
                      (Finite (of_int (license_total S))),
          payback_years = Some (Finite (6004799503160661 / 9007199254740992))\<rparr>"
    unfolding calculate_costs_unfold [OF headcount_cost_exact [OF assms(1,2)]
                license_total_convertible [OF assms(3,4)]]
              implementation_cost_exact [OF assms(1,2)]
              annual_savings_exact [OF assms(1,2)]
              payback_exact [OF assms(1)]
    using pos by simp
  then show ?thesis
    by (simp add: dr_two_thirds)
qed

theorem payback_years_constant_witness:
  "(0::int) < 25 \<and> 60000 * 25 < (2::int) ^ 58
   \<and> distinct [''RPA'', ''AI''] \<and> set [''RPA'', ''AI''] \<subseteq> set ALL_TECHS
   \<and> (\<exists>r. calculate_costs 25 [''RPA'', ''AI''] = Inr r
          \<and> payback_years r = Some (Finite (double_round (2 / 3)))
          \<and> double_round (2 / 3) = 6004799503160661 / 2 ^ 53)"
proof -
  have h: "(0::int) < 25" "60000 * 25 < (2::int) ^ 58" by simp_all
  from payback_years_constant [OF h sample_selection] h sample_selection
  show ?thesis by blast
qed


text \<open>
  The float quotient of the two percentages themselves is another double,
  \<open>0.6666666666666667\<close>: both literals are rounded before the division.
\<close>

lemma dr_pct_quotient:
  "double_round (3602879701896397 / 5404319552844595) = 3002399751580331 / 4503599627370496"
  by (subst double_round_at [where p = "- 53" and K = 6004799503160662]) simp_all

lemma pct_quotient:
  "float_div IMPLEMENTATION_PCT SAVINGS_PCT = Inr (Finite (3002399751580331 / 4503599627370496))"
  by (simp add: IMPLEMENTATION_PCT_eq SAVINGS_PCT_eq double_of_rat_def dr_pct_quotient)

text \<open>
  The first headcount beyond that range, \<open>4803839602529\<close>: \<open>60000 * h\<close> has 54
  significant bits, the conversion rounds, and the quotient is another double.
\<close>

lemma varies_n:
  "double_round (288230376151740000) = 288230376151740032"
  by (subst double_round_tie [where p = "6" and K = 4503599627370937]) simp_all

lemma varies_i:
  "double_round (8112963841461464856352982355193 / 140737488355328) = 57646075230348008"
  by (subst double_round_at [where p = "3" and K = 7205759403793501]) simp_all

lemma varies_s:
  "double_round (12169445762192196158629566690055 / 140737488355328) = 86469112845522000"
  by (subst double_round_at [where p = "4" and K = 5404319552845125]) simp_all

lemma varies_q:
  "double_round (7205759403793501 / 10808639105690250) = 3002399751580331 / 4503599627370496"
  by (subst double_round_at [where p = "- 53" and K = 6004799503160662]) simp_all

lemma varies_d:
  "double_round (201761263306218032) = 201761263306218048"
  by (subst double_round_tie [where p = "5" and K = 6305039478319313]) simp_all

lemma varies_net:
  "double_round (201761263306218048) = 201761263306218048"
  by (subst double_round_at [where p = "5" and K = 6305039478319314]) simp_all

lemma varies_summary:
  "calculate_costs 4803839602529 [] =
     Inr \<lparr>headcount_cost = 288230376151740000, implementation_cost = Finite 57646075230348008, tech_cost = 0,
          annual_savings = Finite 86469112845522000, net_annual_cost = Finite 201761263306218048,
          payback_years = Some (Finite (3002399751580331 / 4503599627370496))\<rparr>"
proof -
  have n: "float_of_int (4803839602529 * 60000) = Inr (Finite 288230376151740032)"
    by (simp add: float_of_int_def double_of_rat_def varies_n)
  have t: "float_of_int (license_total []) = Inr (Finite 0)"
    by (simp add: float_of_int_small)
  have i: "float_mul (Finite 288230376151740032) IMPLEMENTATION_PCT = Finite 57646075230348008"
    by (simp add: IMPLEMENTATION_PCT_eq double_of_rat_def varies_i)
  have s: "float_mul (Finite 288230376151740032) SAVINGS_PCT = Finite 86469112845522000"
    by (simp add: SAVINGS_PCT_eq double_of_rat_def varies_s)
  have q: "float_div (Finite 57646075230348008) (Finite 86469112845522000) = Inr (Finite (3002399751580331 / 4503599627370496))"
    by (simp add: double_of_rat_def varies_q)
  have d: "float_sub (Finite 288230376151740032) (Finite 86469112845522000) = Finite 201761263306218048"
    by (simp add: float_sub_def double_of_rat_def varies_d)
  have a: "float_add (Finite 201761263306218048) (Finite 0) = Finite 201761263306218048"
    by (simp add: double_of_rat_def varies_net)
  show ?thesis
    unfolding calculate_costs_unfold [OF n t] i s q d a by simp
qed

theorem payback_years_varies:
  "calculate_costs 4803839602529 [] =
     Inr \<lparr>headcount_cost = 288230376151740000,
          implementation_cost = Finite 57646075230348008, tech_cost = 0,
          annual_savings = Finite 86469112845522000,
          net_annual_cost = Finite 201761263306218048,
          payback_years = Some (Finite (3002399751580331 / 4503599627370496))\<rparr>
   \<and> (3002399751580331 / 4503599627370496 :: rat) \<noteq> 6004799503160661 / 2 ^ 53"
  using varies_summary by simp

lemma license_total_dvd: "8 dvd license_total S"
proof (induction S)
  case Nil
  show ?case by simp
next
  case (Cons t S)
  have "8 dvd get_default TECH_LICENSE_COSTS t 0"
    by (simp add: get_default_def TECH_LICENSE_COSTS_def)
  with Cons show ?case by simp
qed

text \<open>
  The net cost stays exact further than \<open>2^53\<close>: \<open>42000 * h\<close> is a multiple of 16 and
  \<open>42000 * h + tech_cost\<close> a multiple of 8, so both are doubles while the latter is
  below \<open>2^56\<close>.
\<close>

lemma net_annual_cost_exact_wide:
  assumes "0 < h" "42000 * (h + 1) < (2::int) ^ 56" "0 \<le> t" "t \<le> 42000" "8 dvd t"
  shows "float_add (float_sub (Finite (of_int (60000 * h))) (Finite (of_int (18000 * h))))
                   (Finite (of_int t))
           = Finite (of_int (42000 * h + t))"
proof -
  have m: "0 < 2625 * h" "2625 * h < 2 ^ 53" using assms(1,2) by simp_all
  have "double_round (of_int (2625 * h) * 2 ^ 4) = of_int (2625 * h) * 2 ^ 4"
    by (rule double_round_exact [OF m])
  moreover have v: "(of_int (2625 * h) :: rat) * 2 ^ 4 = of_int (42000 * h)" by simp
  ultimately have "double_round (of_int (42000 * h)) = of_int (42000 * h)"
    by (simp only:)
  moreover have "\<bar>of_int (42000 * h) :: rat\<bar> < 2 ^ 1024"
  proof -
    have "42000 * h < 2 ^ 56" using assms(1,2) by simp
    from of_int_less_pow2 [OF this] show ?thesis using assms(1) by simp
  qed
  ultimately have "double_of_rat (of_int (42000 * h)) = Finite (of_int (42000 * h))"
    by (rule double_of_rat_eq)
  moreover have "(of_int (60000 * h) :: rat) + - of_int (18000 * h) = of_int (42000 * h)"
    by simp
  ultimately have d: "float_sub (Finite (of_int (60000 * h))) (Finite (of_int (18000 * h)))
                        = Finite (of_int (42000 * h))"
    unfolding float_sub_def float_neg.simps float_add.simps by (simp only:)
  from assms(5) obtain k where k: "t = 8 * k" by (auto elim: dvdE)
  define w where "w = 5250 * h + k"
  have w: "0 < w" "w < 2 ^ 53" using assms(1,2,3,4) k by (simp_all add: w_def)
  have "double_round (of_int w * 2 ^ 3) = of_int w * 2 ^ 3"
    by (rule double_round_exact [OF w])
  moreover have "(of_int w :: rat) * 2 ^ 3 = of_int (42000 * h + t)"
    by (simp add: w_def k)
  ultimately have "double_round (of_int (42000 * h + t)) = of_int (42000 * h + t)"
    by (simp only:)
  moreover have "\<bar>of_int (42000 * h + t) :: rat\<bar> < 2 ^ 1024"
  proof -
    have "42000 * h + t < 2 ^ 56" using assms(2,4) by simp
    from of_int_less_pow2 [OF this] show ?thesis using assms(1,3) by simp
  qed
  ultimately have "double_of_rat (of_int (42000 * h + t)) = Finite (of_int (42000 * h + t))"
    by (rule double_of_rat_eq)
  moreover have "(of_int (42000 * h) :: rat) + of_int t = of_int (42000 * h + t)"
    by simp
  ultimately show ?thesis
    unfolding d float_add.simps by (simp only:)
qed

lemma calculate_costs_exact_wide:
  assumes "0 < h" "42000 * (h + 1) < (2::int) ^ 56"
    and "0 \<le> license_total S" "license_total S \<le> 42000"
  shows "calculate_costs h S =
     Inr \<lparr>headcount_cost = h * 60000,
          implementation_cost = Finite (of_int (12000 * h)),
          tech_cost = license_total S,
          annual_savings = Finite (of_int (18000 * h)),
          net_annual_cost = Finite (of_int (42000 * h + license_total S)),
          payback_years = Some (Finite (6004799503160661 / 9007199254740992))\<rparr>"
proof -
  have h58: "60000 * h < 2 ^ 58" using assms(1,2) by simp
  have t: "float_of_int (license_total S) = Inr (Finite (of_int (license_total S)))"
    using assms(3,4) by (intro float_of_int_small) simp_all
  have pos: "(0::rat) < of_int (18000 * h)" using assms(1) by simp
  show ?thesis
    unfolding calculate_costs_unfold [OF headcount_cost_exact [OF assms(1) h58] t]
              implementation_cost_exact [OF assms(1) h58]
              annual_savings_exact [OF assms(1) h58]
              net_annual_cost_exact_wide [OF assms license_total_dvd]
              payback_exact [OF assms(1)]
    using pos by simp
qed

lemma relative_error_pos:
  assumes "1 / 4 \<le> x"
  shows "x - x / 9007199254740992 \<le> double_round x"
    and "double_round x \<le> x + x / 9007199254740992"
proof -
  have "(2::rat) powi (- 1022) \<le> 1 / 4" by (simp add: power_int_minus field_simps)
  then have "2 powi (- 1022) \<le> \<bar>x\<bar>" using assms by linarith
  from double_round_relative_error [OF this]
  have "\<bar>double_round x - x\<bar> \<le> x / 9007199254740992" using assms by simp
  then show "x - x / 9007199254740992 \<le> double_round x"
    and "double_round x \<le> x + x / 9007199254740992"
    by linarith+
qed

text \<open>
  In the whole range each of the four operations behind \<open>net_annual_cost\<close> is within
  \<open>2^-53\<close> of its exact value, relatively, and the result is within \<open>2^-51\<close> of
  \<open>0.7 * 60000 * h + tech_cost\<close>.
\<close>

lemma net_annual_cost_in_range:
  fixes h :: int and t :: rat
  assumes "0 < h" "60000 * h < 2 ^ 1024 - 2 ^ 970" "0 \<le> t" "t \<le> 42000"
  defines "N \<equiv> of_int (60000 * h)"
  defines "n \<equiv> double_round N"
  defines "s \<equiv> double_round (n * (5404319552844595 / 18014398509481984))"
  shows "\<exists>y. float_add (float_sub (Finite n) (Finite s)) (Finite t) = Finite y
           \<and> 0 \<le> y
           \<and> \<bar>y - (7 / 10 * N + t)\<bar> \<le> (7 / 10 * N + t) / 2 ^ 51"
proof -
  define x where "x = n * (5404319552844595 / 18014398509481984)"
  define z where "z = n + - s"
  define d where "d = double_round z"
  define w where "w = d + t"
  define y where "y = double_round w"
  have hr: "\<bar>60000 * h\<bar> < 2 ^ 1024 - 2 ^ 970" using assms(1,2) by simp
  have "(of_int (60000 * 1) :: rat) \<le> of_int (60000 * h)"
    using assms(1) by (simp only: of_int_le_iff)
  then have N: "60000 \<le> N" by (simp add: N_def)
  have nb: "\<bar>n\<bar> < 2 ^ 1024"
    unfolding n_def N_def using hr by (rule convert_in_range(2))
  have n: "N - N / 9007199254740992 \<le> n" "n \<le> N + N / 9007199254740992"
    unfolding n_def using N by (intro relative_error_pos; simp)+
  have n1: "1 \<le> n" using n(1) N by simp
  have x4: "1 / 4 \<le> x" using n1 by (simp add: x_def)
  have s: "x - x / 9007199254740992 \<le> s" "s \<le> x + x / 9007199254740992"
    unfolding s_def x_def [symmetric] using x4 by (rule relative_error_pos)+
  have xb: "29 / 100 * n \<le> x" "x \<le> 3 / 10 * n" using n1 by (simp_all add: x_def)
  have z0: "n / 2 \<le> z"
    using s xb n1 unfolding z_def by linarith
  have z1: "z \<le> 3 / 4 * n"
    using s xb n1 unfolding z_def by linarith
  have "\<bar>z\<bar> < 2 ^ 1024 - 2 ^ 970" using z0 z1 nb n1 by simp
  from double_of_rat_finite(1) [OF this]
  have fs: "float_sub (Finite n) (Finite s) = Finite d"
    by (simp add: float_sub_def z_def d_def)
  have z4: "1 / 4 \<le> z" using z0 n1 by simp
  have d: "z - z / 9007199254740992 \<le> d" "d \<le> z + z / 9007199254740992"
    unfolding d_def using z4 by (rule relative_error_pos)+
  have d4: "1 / 4 \<le> d" using d z0 z1 n1 by linarith
  have d5: "d \<le> 4 / 5 * n" using d z0 z1 n1 by linarith
  have "\<bar>w\<bar> < 2 ^ 1024 - 2 ^ 970"
    using d4 d5 nb n1 assms(3,4) by (simp add: w_def)
  from double_of_rat_finite(1) [OF this]
  have fa: "float_add (Finite d) (Finite t) = Finite y"
    by (simp add: w_def y_def)
  have w4: "1 / 4 \<le> w" using d4 assms(3) by (simp add: w_def)
  have y: "w - w / 9007199254740992 \<le> y" "y \<le> w + w / 9007199254740992"
    unfolding y_def using w4 by (rule relative_error_pos)+
  have y0: "0 \<le> y" using y(1) w4 by linarith
  have xu: "x \<le> 3 / 10 * n" and xl: "3 / 10 * n - n / 90071992547409920 \<le> x"
    using n1 by (simp_all add: x_def)
  have zu: "z \<le> 7 / 10 * n + n / 18014398509481984"
    using s(1) xl xu n1 unfolding z_def by linarith
  have zl: "7 / 10 * n - n / 18014398509481984 \<le> z"
    using s(2) xu n1 unfolding z_def by linarith
  have zu': "z \<le> 7 / 10 * N + 5 * N / 36028797018963968"
    using zu n(2) N by linarith
  have zl': "7 / 10 * N - 5 * N / 36028797018963968 \<le> z"
    using zl n(1) N by linarith
  have du: "d \<le> 7 / 10 * N + 2 * N / 9007199254740992"
    using d(2) zu' N by linarith
  have dl: "7 / 10 * N - 2 * N / 9007199254740992 \<le> d"
    using d(1) zl' zu' N by linarith
  define E where "E = 7 / 10 * N + t"
  have up: "y \<le> E + E / 2251799813685248"
    using y(2) du N assms(3) w_def E_def by linarith
  have lo: "E - E / 2251799813685248 \<le> y"
    using y(1) dl du N assms(3) w_def E_def by linarith
  have "\<bar>y - E\<bar> \<le> E / 2251799813685248"
    using up lo by linarith
  then have "\<bar>y - (7 / 10 * N + t)\<bar> \<le> (7 / 10 * N + t) / 2 ^ 51"
    unfolding E_def by simp
  then show ?thesis
    unfolding fs fa using y0 by blast
qed

text \<open>
  Claim C10, as the code has it. For every headcount \<open>h > 0\<close> for which
  \<open>60000 * h\<close> converts to a double and every subset \<open>S\<close> of the catalog, the call
  returns, \<open>tech_cost\<close> is not negative, and \<open>net_annual_cost\<close> is a finite double that
  is not negative and lies within a relative error of \<open>2^-51\<close> of
  \<open>(1 - 0.3) * headcount_cost + tech_cost\<close>. While \<open>42000 * (h + 1) < 2^56\<close>, that is
  for \<open>h \<le> 1715657000902\<close>, it is exactly that value.
\<close>

theorem net_annual_cost_nonneg:
  fixes h :: int
  assumes "0 < h" "60000 * h < 2 ^ 1024 - 2 ^ 970" "distinct S" "set S \<subseteq> set ALL_TECHS"
  shows "\<exists>r y. calculate_costs h S = Inr r
           \<and> net_annual_cost r = Finite y \<and> 0 \<le> y \<and> 0 \<le> tech_cost r
           \<and> \<bar>y - ((1 - 3 / 10) * of_int (h * ANNUAL_COST_PER_FTE) + of_int (tech_cost r))\<bar>
               \<le> ((1 - 3 / 10) * of_int (h * ANNUAL_COST_PER_FTE) + of_int (tech_cost r))
                    / 2 ^ 51
           \<and> (42000 * (h + 1) < 2 ^ 56 \<longrightarrow>
                 y = (1 - 3 / 10) * of_int (h * ANNUAL_COST_PER_FTE) + of_int (tech_cost r))"
proof -
  define n where "n = double_round (of_int (60000 * h))"
  define i where "i = double_round (n * (3602879701896397 / 18014398509481984))"
  define s where "s = double_round (n * (5404319552844595 / 18014398509481984))"
  define t :: rat where "t = of_int (license_total S)"
  define E :: rat where "E = 7 / 10 * of_int (60000 * h) + t"
  have hr: "\<bar>60000 * h\<bar> < 2 ^ 1024 - 2 ^ 970" using assms(1,2) by simp
  from summary_in_range [OF hr assms(3,4), folded n_def, folded i_def s_def, folded t_def]
  obtain r where r: "calculate_costs h S = Inr r" "tech_cost r = license_total S"
    "net_annual_cost r = float_add (float_sub (Finite n) (Finite s)) (Finite t)"
    by blast
  note lt = license_total_bounds [OF assms(3,4)]
  have t: "0 \<le> t" "t \<le> 42000"
    using lt by (simp_all add: t_def)
  from net_annual_cost_in_range [OF assms(1,2) t, folded n_def, folded s_def, folded E_def]
  obtain y where y: "float_add (float_sub (Finite n) (Finite s)) (Finite t) = Finite y"
    "0 \<le> y" "\<bar>y - E\<bar> \<le> E / 2 ^ 51"
    by blast
  have E: "(1 - 3 / 10) * of_int (h * ANNUAL_COST_PER_FTE) + of_int (tech_cost r) = E"
    by (simp add: E_def t_def r(2) ANNUAL_COST_PER_FTE_def)
  have x: "y = E" if k: "42000 * (h + 1) < 2 ^ 56"
  proof -
    from calculate_costs_exact_wide [OF assms(1) k lt] r(1)
    have "net_annual_cost r = Finite (of_int (42000 * h + license_total S))"
      by auto
    with r(3) y(1) have "y = of_int (42000 * h + license_total S)" by simp
    then show ?thesis by (simp add: E_def t_def)
  qed
  have a: "net_annual_cost r = Finite y" using r(3) y(1) by simp
  have b: "0 \<le> tech_cost r" using r(2) lt(1) by simp
  have c: "42000 * (h + 1) < 2 ^ 56 \<longrightarrow>
             y = (1 - 3 / 10) * of_int (h * ANNUAL_COST_PER_FTE) + of_int (tech_cost r)"
    unfolding E using x by blast
  have d: "\<bar>y - ((1 - 3 / 10) * of_int (h * ANNUAL_COST_PER_FTE) + of_int (tech_cost r))\<bar>
             \<le> ((1 - 3 / 10) * of_int (h * ANNUAL_COST_PER_FTE) + of_int (tech_cost r))
                  / 2 ^ 51"
    unfolding E by (rule y(3))
  show ?thesis
    using r(1) a y(2) b d c by blast
qed

theorem net_annual_cost_nonneg_witness:
  "(0::int) < 25 \<and> 60000 * 25 < (2::int) ^ 1024 - 2 ^ 970
   \<and> distinct [''RPA'', ''AI''] \<and> set [''RPA'', ''AI''] \<subseteq> set ALL_TECHS
   \<and> 42000 * (25 + 1) < (2::int) ^ 56
   \<and> (\<exists>r y. calculate_costs 25 [''RPA'', ''AI''] = Inr r
          \<and> net_annual_cost r = Finite y \<and> 0 \<le> y \<and> 0 \<le> tech_cost r
          \<and> y = (1 - 3 / 10) * of_int (25 * ANNUAL_COST_PER_FTE) + of_int (tech_cost r))"
proof -
  have h: "(0::int) < 25" "60000 * 25 < (2::int) ^ 1024 - 2 ^ 970" by simp_all
  have k: "42000 * (25 + 1) < (2::int) ^ 56" by simp
  from net_annual_cost_nonneg [OF h sample_selection]
  obtain r y where r: "calculate_costs 25 [''RPA'', ''AI''] = Inr r"
    "net_annual_cost r = Finite y" "0 \<le> y" "0 \<le> tech_cost r"
    "42000 * (25 + 1) < (2::int) ^ 56 \<longrightarrow>
       y = (1 - 3 / 10) * of_int (25 * ANNUAL_COST_PER_FTE) + of_int (tech_cost r)"
    by (elim exE conjE) (rule that, assumption+)
  from r(5) k have "y = (1 - 3 / 10) * of_int (25 * ANNUAL_COST_PER_FTE) + of_int (tech_cost r)"
    by blast
  with r(1,2,3,4) h k sample_selection show ?thesis by blast
qed

text \<open>
  The next headcount, \<open>1715657000903\<close>, with \<open>S = {RPA}\<close>:
  \<open>0.7 * 60000 * h + 5000\<close> is \<open>72057594037931000\<close>, above \<open>2^56\<close> and not a multiple of
  16, so it is not a double and the addition rounds it to \<open>72057594037931008\<close>.
\<close>

lemma first_rounded_n:
  "double_round (102939420054180000) = 102939420054180000"
  by (subst double_round_at [where p = "4" and K = 6433713753386250]) simp_all

lemma first_rounded_i:
  "double_round (11589948344943500922452712170625 / 562949953421312) = 20587884010836000"
  by (subst double_round_at [where p = "2" and K = 5146971002709000]) simp_all

lemma first_rounded_s:
  "double_round (17384922517415249775250629909375 / 562949953421312) = 30881826016254000"
  by (subst double_round_at [where p = "2" and K = 7720456504063500]) simp_all

lemma first_rounded_q:
  "double_round (2 / 3) = 6004799503160661 / 9007199254740992"
  by (subst double_round_at [where p = "- 53" and K = 6004799503160661]) simp_all

lemma first_rounded_d:
  "double_round (72057594037926000) = 72057594037926000"
  by (subst double_round_at [where p = "3" and K = 9007199254740750]) simp_all

lemma first_rounded_net:
  "double_round (72057594037931000) = 72057594037931008"
  by (subst double_round_tie [where p = "4" and K = 4503599627370687]) simp_all

lemma first_rounded_summary:
  "calculate_costs 1715657000903 [''RPA''] =
     Inr \<lparr>headcount_cost = 102939420054180000, implementation_cost = Finite 20587884010836000, tech_cost = 5000,
          annual_savings = Finite 30881826016254000, net_annual_cost = Finite 72057594037931008,
          payback_years = Some (Finite (6004799503160661 / 9007199254740992))\<rparr>"
proof -
  have n: "float_of_int (1715657000903 * 60000) = Inr (Finite 102939420054180000)"
    by (simp add: float_of_int_def double_of_rat_def first_rounded_n)
  have l: "license_total [''RPA''] = 5000"
    by (simp add: get_default_def TECH_LICENSE_COSTS_def)
  have t: "float_of_int (license_total [''RPA'']) = Inr (Finite 5000)"
    unfolding l by (simp add: float_of_int_small)
  have i: "float_mul (Finite 102939420054180000) IMPLEMENTATION_PCT = Finite 20587884010836000"
    by (simp add: IMPLEMENTATION_PCT_eq double_of_rat_def first_rounded_i)
  have s: "float_mul (Finite 102939420054180000) SAVINGS_PCT = Finite 30881826016254000"
    by (simp add: SAVINGS_PCT_eq double_of_rat_def first_rounded_s)
  have q: "float_div (Finite 20587884010836000) (Finite 30881826016254000) = Inr (Finite (6004799503160661 / 9007199254740992))"
    by (simp add: double_of_rat_def first_rounded_q)
  have d: "float_sub (Finite 102939420054180000) (Finite 30881826016254000) = Finite 72057594037926000"
    by (simp add: float_sub_def double_of_rat_def first_rounded_d)
  have a: "float_add (Finite 72057594037926000) (Finite 5000) = Finite 72057594037931008"
    by (simp add: double_of_rat_def first_rounded_net)
  show ?thesis
    unfolding calculate_costs_unfold [OF n t] i s q d a l by simp
qed

theorem net_annual_cost_first_rounded:
  "calculate_costs 1715657000903 [''RPA''] =
     Inr \<lparr>headcount_cost = 102939420054180000,
          implementation_cost = Finite 20587884010836000, tech_cost = 5000,
          annual_savings = Finite 30881826016254000,
          net_annual_cost = Finite 72057594037931008,
          payback_years = Some (Finite (6004799503160661 / 9007199254740992))\<rparr>
   \<and> (72057594037931008 :: rat) \<noteq> (1 - 3 / 10) * (1715657000903 * 60000) + 5000"
  using first_rounded_summary by simp

text \<open>
  With an empty selection the first such headcount is \<open>3431314001807\<close>:
  \<open>0.7 * 60000 * h\<close> is \<open>144115188075894000\<close>, which needs 54 significant bits, and
  the subtraction rounds it.
\<close>

lemma rounds_n:
  "double_round (205878840108420000) = 205878840108420000"
  by (subst double_round_at [where p = "5" and K = 6433713753388125]) simp_all

lemma rounds_i:
  "double_round (23179896689893757244346480085625 / 562949953421312) = 41175768021684000"
  by (subst double_round_at [where p = "3" and K = 5146971002710500]) simp_all

lemma rounds_s:
  "double_round (34769845034840632649662843434375 / 562949953421312) = 61763652032526000"
  by (subst double_round_at [where p = "3" and K = 7720456504065750]) simp_all

lemma rounds_q:
  "double_round (2 / 3) = 6004799503160661 / 9007199254740992"
  by (subst double_round_at [where p = "- 53" and K = 6004799503160661]) simp_all

lemma rounds_d:
  "double_round (144115188075894000) = 144115188075894016"
  by (subst double_round_tie [where p = "5" and K = 4503599627371687]) simp_all

lemma rounds_net:
  "double_round (144115188075894016) = 144115188075894016"
  by (subst double_round_at [where p = "5" and K = 4503599627371688]) simp_all

lemma rounds_summary:
  "calculate_costs 3431314001807 [] =
     Inr \<lparr>headcount_cost = 205878840108420000, implementation_cost = Finite 41175768021684000, tech_cost = 0,
          annual_savings = Finite 61763652032526000, net_annual_cost = Finite 144115188075894016,
          payback_years = Some (Finite (6004799503160661 / 9007199254740992))\<rparr>"
proof -
  have n: "float_of_int (3431314001807 * 60000) = Inr (Finite 205878840108420000)"
    by (simp add: float_of_int_def double_of_rat_def rounds_n)
  have t: "float_of_int (license_total []) = Inr (Finite 0)"
    by (simp add: float_of_int_small)
  have i: "float_mul (Finite 205878840108420000) IMPLEMENTATION_PCT = Finite 41175768021684000"
    by (simp add: IMPLEMENTATION_PCT_eq double_of_rat_def rounds_i)
  have s: "float_mul (Finite 205878840108420000) SAVINGS_PCT = Finite 61763652032526000"
    by (simp add: SAVINGS_PCT_eq double_of_rat_def rounds_s)
  have q: "float_div (Finite 41175768021684000) (Finite 61763652032526000) = Inr (Finite (6004799503160661 / 9007199254740992))"
    by (simp add: double_of_rat_def rounds_q)
  have d: "float_sub (Finite 205878840108420000) (Finite 61763652032526000) = Finite 144115188075894016"
    by (simp add: float_sub_def double_of_rat_def rounds_d)
  have a: "float_add (Finite 144115188075894016) (Finite 0) = Finite 144115188075894016"
    by (simp add: double_of_rat_def rounds_net)
  show ?thesis
    unfolding calculate_costs_unfold [OF n t] i s q d a by simp
qed

lemma net_annual_cost_rounded:
  "calculate_costs 3431314001807 [] =
     Inr \<lparr>headcount_cost = 205878840108420000,
          implementation_cost = Finite 41175768021684000, tech_cost = 0,
          annual_savings = Finite 61763652032526000,
          net_annual_cost = Finite 144115188075894016,
          payback_years = Some (Finite (6004799503160661 / 9007199254740992))\<rparr>
   \<and> (144115188075894016 :: rat) \<noteq> (1 - 3 / 10) * (3431314001807 * 60000) + 0"
  using rounds_summary by simp


lemma get_default_catalog:
  "t \<in> set ALL_TECHS \<Longrightarrow> get_default TECH_LICENSE_COSTS t 0 = the (map_of TECH_LICENSE_COSTS t)"
  by (auto simp: ALL_TECHS_eq get_default_def TECH_LICENSE_COSTS_def)

lemma license_total_catalog_sum:
  assumes "distinct S" "set S \<subseteq> set ALL_TECHS"
  shows "license_total S = (\<Sum>t \<in> set S. the (map_of TECH_LICENSE_COSTS t))"
  unfolding license_total_set [OF assms(1)]
  using assms(2) by (intro sum.cong) (auto simp: get_default_catalog)

text \<open>
  Claim C3, as the code has it. For every headcount \<open>h > 0\<close> for which \<open>60000 * h\<close>
  converts to a double and every subset \<open>S\<close> of the catalog, \<open>calculate_costs\<close>
  returns: \<open>headcount_cost\<close> is the integer \<open>h * ANNUAL_COST_PER_FTE\<close>;
  \<open>implementation_cost\<close> and \<open>annual_savings\<close> are the double products of it with
  the doubles nearest to \<open>0.20\<close> and \<open>0.30\<close>; \<open>tech_cost\<close> is the sum of the catalog's
  license costs over \<open>S\<close>, with no development or per-user cost; \<open>net_annual_cost\<close> is
  the double \<open>headcount_cost - annual_savings + tech_cost\<close>. While \<open>60000 * h < 2^53\<close>
  no operation rounds and the three are exactly \<open>headcount_cost * 0.20\<close>,
  \<open>headcount_cost * 0.30\<close> and \<open>headcount_cost - annual_savings + tech_cost\<close>. For
  \<open>h = 25\<close> and \<open>S = {RPA, AI}\<close> the summary is the one of scenario B.
\<close>

theorem calculate_costs_fields:
  fixes h :: int
  assumes "0 < h" "60000 * h < 2 ^ 1024 - 2 ^ 970" "distinct S" "set S \<subseteq> set ALL_TECHS"
  shows "(\<exists>r n t. calculate_costs h S = Inr r
            \<and> float_of_int (h * ANNUAL_COST_PER_FTE) = Inr n
            \<and> float_of_int (tech_cost r) = Inr t
            \<and> headcount_cost r = h * ANNUAL_COST_PER_FTE
            \<and> implementation_cost r = float_mul n IMPLEMENTATION_PCT
            \<and> annual_savings r = float_mul n SAVINGS_PCT
            \<and> tech_cost r = (\<Sum>t \<in> set S. the (map_of TECH_LICENSE_COSTS t))
            \<and> net_annual_cost r = float_add (float_sub n (annual_savings r)) t
            \<and> (60000 * h < 2 ^ 53 \<longrightarrow>
                  implementation_cost r
                    = Finite (of_int (headcount_cost r) * (20 / 100))
                  \<and> annual_savings r
                    = Finite (of_int (headcount_cost r) * (30 / 100))
                  \<and> net_annual_cost r
                    = Finite (of_int (headcount_cost r)
                              - of_int (headcount_cost r) * (30 / 100)
                              + of_int (tech_cost r))))
         \<and> calculate_costs 25 [''RPA'', ''AI''] =
             Inr \<lparr>headcount_cost = 1500000, implementation_cost = Finite 300000,
                  tech_cost = 17000, annual_savings = Finite 450000,
                  net_annual_cost = Finite 1067000,
                  payback_years = Some (Finite (6004799503160661 / 9007199254740992))\<rparr>"
proof -
  define n where "n = Finite (double_round (of_int (60000 * h)))"
  define t where "t = Finite (of_int (license_total S))"
  have hr: "\<bar>60000 * h\<bar> < 2 ^ 1024 - 2 ^ 970" using assms(1,2) by simp
  have cn: "float_of_int (h * 60000) = Inr n"
    unfolding n_def using hr by (rule convert_in_range(1))
  have ct: "float_of_int (license_total S) = Inr t"
    unfolding t_def using assms(3,4) by (rule license_total_convertible)
  note u = calculate_costs_unfold [OF cn ct]
  define r where "r = \<lparr>headcount_cost = h * 60000,
          implementation_cost = float_mul n IMPLEMENTATION_PCT,
          tech_cost = license_total S,
          annual_savings = float_mul n SAVINGS_PCT,
          net_annual_cost = float_add (float_sub n (float_mul n SAVINGS_PCT)) t,
          payback_years =
            (if float_bool (float_mul n SAVINGS_PCT) \<and> float_gt0 (float_mul n SAVINGS_PCT)
             then (case float_div (float_mul n IMPLEMENTATION_PCT) (float_mul n SAVINGS_PCT) of
                     Inl e \<Rightarrow> None | Inr q \<Rightarrow> Some q)
             else None)\<rparr>"
  have r: "calculate_costs h S = Inr r" unfolding r_def by (rule u)
  have f: "headcount_cost r = h * ANNUAL_COST_PER_FTE"
    "implementation_cost r = float_mul n IMPLEMENTATION_PCT"
    "annual_savings r = float_mul n SAVINGS_PCT"
    "tech_cost r = license_total S"
    "net_annual_cost r = float_add (float_sub n (annual_savings r)) t"
    by (simp_all add: r_def ANNUAL_COST_PER_FTE_def)
  have e: "implementation_cost r = Finite (of_int (headcount_cost r) * (20 / 100))
           \<and> annual_savings r = Finite (of_int (headcount_cost r) * (30 / 100))
           \<and> net_annual_cost r
               = Finite (of_int (headcount_cost r) - of_int (headcount_cost r) * (30 / 100)
                         + of_int (tech_cost r))"
    if k: "60000 * h < 2 ^ 53"
  proof -
    note x = calculate_costs_exact [OF assms(1) k license_total_bounds [OF assms(3,4)]]
    from r x have "r = \<lparr>headcount_cost = h * 60000,
          implementation_cost = Finite (of_int (12000 * h)),
          tech_cost = license_total S,
          annual_savings = Finite (of_int (18000 * h)),
          net_annual_cost = Finite (of_int (42000 * h + license_total S)),
          payback_years = Some (Finite (6004799503160661 / 9007199254740992))\<rparr>"
      by simp
    then show ?thesis by simp
  qed
  have a1: "float_of_int (h * ANNUAL_COST_PER_FTE) = Inr n"
    using cn by (simp add: ANNUAL_COST_PER_FTE_def)
  have a2: "float_of_int (tech_cost r) = Inr t"
    using ct f(4) by simp
  have a3: "tech_cost r = (\<Sum>t \<in> set S. the (map_of TECH_LICENSE_COSTS t))"
    using f(4) license_total_catalog_sum [OF assms(3,4)] by simp
  have a4: "60000 * h < 2 ^ 53 \<longrightarrow>
                  implementation_cost r
                    = Finite (of_int (headcount_cost r) * (20 / 100))
                  \<and> annual_savings r
                    = Finite (of_int (headcount_cost r) * (30 / 100))
                  \<and> net_annual_cost r
                    = Finite (of_int (headcount_cost r)
                              - of_int (headcount_cost r) * (30 / 100)
                              + of_int (tech_cost r))"
    using e by blast
  have "\<exists>r n t. calculate_costs h S = Inr r
            \<and> float_of_int (h * ANNUAL_COST_PER_FTE) = Inr n
            \<and> float_of_int (tech_cost r) = Inr t
            \<and> headcount_cost r = h * ANNUAL_COST_PER_FTE
            \<and> implementation_cost r = float_mul n IMPLEMENTATION_PCT
            \<and> annual_savings r = float_mul n SAVINGS_PCT
            \<and> tech_cost r = (\<Sum>t \<in> set S. the (map_of TECH_LICENSE_COSTS t))
            \<and> net_annual_cost r = float_add (float_sub n (annual_savings r)) t
            \<and> (60000 * h < 2 ^ 53 \<longrightarrow>
                  implementation_cost r
                    = Finite (of_int (headcount_cost r) * (20 / 100))
                  \<and> annual_savings r
                    = Finite (of_int (headcount_cost r) * (30 / 100))
                  \<and> net_annual_cost r
                    = Finite (of_int (headcount_cost r)
                              - of_int (headcount_cost r) * (30 / 100)
                              + of_int (tech_cost r)))"
    using r a1 a2 f(1,2,3,5) a3 a4 by blast
  then show ?thesis
    using calculate_costs_sample by blast
qed

theorem calculate_costs_fields_witness:
  "(0::int) < 25 \<and> 60000 * 25 < (2::int) ^ 1024 - 2 ^ 970
   \<and> distinct [''RPA'', ''AI''] \<and> set [''RPA'', ''AI''] \<subseteq> set ALL_TECHS
   \<and> 60000 * 25 < (2::int) ^ 53
   \<and> (\<exists>r. calculate_costs 25 [''RPA'', ''AI''] = Inr r
          \<and> headcount_cost r = 25 * ANNUAL_COST_PER_FTE
          \<and> tech_cost r = (\<Sum>t \<in> set [''RPA'', ''AI'']. the (map_of TECH_LICENSE_COSTS t))
          \<and> implementation_cost r = Finite (of_int (headcount_cost r) * (20 / 100))
          \<and> annual_savings r = Finite (of_int (headcount_cost r) * (30 / 100))
          \<and> net_annual_cost r
               = Finite (of_int (headcount_cost r) - of_int (headcount_cost r) * (30 / 100)
                         + of_int (tech_cost r)))"
proof -
  have h: "(0::int) < 25" "60000 * 25 < (2::int) ^ 1024 - 2 ^ 970" by simp_all
  have k: "60000 * 25 < (2::int) ^ 53" by simp
  from calculate_costs_fields [OF h sample_selection]
  obtain r where r: "calculate_costs 25 [''RPA'', ''AI''] = Inr r"
    "headcount_cost r = 25 * ANNUAL_COST_PER_FTE"
    "tech_cost r = (\<Sum>t \<in> set [''RPA'', ''AI'']. the (map_of TECH_LICENSE_COSTS t))"
    "60000 * 25 < (2::int) ^ 53 \<longrightarrow>
       implementation_cost r = Finite (of_int (headcount_cost r) * (20 / 100))
       \<and> annual_savings r = Finite (of_int (headcount_cost r) * (30 / 100))
       \<and> net_annual_cost r
           = Finite (of_int (headcount_cost r) - of_int (headcount_cost r) * (30 / 100)
                     + of_int (tech_cost r))"
    by (elim exE conjE) (rule that, assumption+)
  from r(4) k have "implementation_cost r = Finite (of_int (headcount_cost r) * (20 / 100))
       \<and> annual_savings r = Finite (of_int (headcount_cost r) * (30 / 100))
       \<and> net_annual_cost r
           = Finite (of_int (headcount_cost r) - of_int (headcount_cost r) * (30 / 100)
                     + of_int (tech_cost r))"
    by blast
  with r(1,2,3) h k sample_selection show ?thesis by blast
qed

theorem summary_overflow_at_large_headcount:
  "calculate_costs (10 ^ 305) [''RPA'', ''AI''] = Inl OverflowError"
  by (rule calculate_costs_overflow [OF float_of_int_overflow])

subsection \<open>Identifiers outside the catalog\<close>

lemma get_default_unknown:
  "t \<notin> set ALL_TECHS \<Longrightarrow> get_default TECH_LICENSE_COSTS t 0 = 0"
  by (auto simp: ALL_TECHS_eq get_default_def TECH_LICENSE_COSTS_def)

lemma license_total_filter:
  "license_total (filter (\<lambda>t. t \<in> set ALL_TECHS) S) = license_total S"
  by (induction S) (simp_all add: get_default_unknown)

lemma row_of_filter:
  "t \<in> set ALL_TECHS \<Longrightarrow> row_of h (filter (\<lambda>t. t \<in> set ALL_TECHS) S) t = row_of h S t"
  by (simp add: row_of_def)

text \<open>
  Claim C6, as the code has it. Neither operation raises on an identifier that is not
  in the catalog, and there is no \<open>UnknownTechnology\<close> exception: \<open>calculate_costs\<close>
  reads the license table with a default of zero and \<open>per_solution_table\<close> only tests
  the catalog's own identifiers for membership. For every headcount and every
  selection, both give the result they give on the selection with the unknown
  identifiers removed.
\<close>

theorem unknown_technology_ignored:
  "calculate_costs h S = calculate_costs h (filter (\<lambda>t. t \<in> set ALL_TECHS) S)
   \<and> per_solution_table h S = per_solution_table h (filter (\<lambda>t. t \<in> set ALL_TECHS) S)"
proof
  show "calculate_costs h S = calculate_costs h (filter (\<lambda>t. t \<in> set ALL_TECHS) S)"
    unfolding calculate_costs_def license_total_filter ..
  have "map (row_of h (filter (\<lambda>t. t \<in> set ALL_TECHS) S)) ALL_TECHS
          = map (row_of h S) ALL_TECHS"
    by (rule map_cong [OF refl]) (rule row_of_filter)
  then show "per_solution_table h S
               = per_solution_table h (filter (\<lambda>t. t \<in> set ALL_TECHS) S)"
    unfolding per_solution_table_eq by (simp only:)
qed

theorem unknown_technology_not_raised:
  "calculate_costs 25 [''Blockchain''] =
     Inr \<lparr>headcount_cost = 1500000, implementation_cost = Finite 300000,
          tech_cost = 0, annual_savings = Finite 450000,
          net_annual_cost = Finite 1050000,
          payback_years = Some (Finite (6004799503160661 / 9007199254740992))\<rparr>
   \<and> per_solution_table 25 [''Blockchain''] =
     Inr [\<lparr>solution = ''RPA'', license_cost = 0, dev_cost = 0,
            user_license_cost = 0, total_cost = 0\<rparr>,
          \<lparr>solution = ''VBA'', license_cost = 0, dev_cost = 0,
            user_license_cost = 0, total_cost = 0\<rparr>,
          \<lparr>solution = ''Celonis'', license_cost = 0, dev_cost = 0,
            user_license_cost = 0, total_cost = 0\<rparr>,
          \<lparr>solution = ''Soroco'', license_cost = 0, dev_cost = 0,
            user_license_cost = 0, total_cost = 0\<rparr>,
          \<lparr>solution = ''Analytics'', license_cost = 0, dev_cost = 0,
            user_license_cost = 0, total_cost = 0\<rparr>,
          \<lparr>solution = ''AI'', license_cost = 0, dev_cost = 0,
            user_license_cost = 0, total_cost = 0\<rparr>,
          \<lparr>solution = ''Total Cost'', license_cost = 0, dev_cost = 0,
            user_license_cost = 0, total_cost = 0\<rparr>]
   \<and> ''Blockchain'' \<notin> set ALL_TECHS"
proof -
  have t: "license_total [''Blockchain''] = 0"
    by (simp add: get_default_def TECH_LICENSE_COSTS_def)
  have "calculate_costs 25 [''Blockchain''] =
     Inr \<lparr>headcount_cost = 1500000, implementation_cost = Finite 300000,
          tech_cost = 0, annual_savings = Finite 450000,
          net_annual_cost = Finite 1050000,
          payback_years = Some (Finite (6004799503160661 / 9007199254740992))\<rparr>"
    using calculate_costs_exact [of 25 "[''Blockchain'']"] unfolding t by simp
  moreover have "per_solution_table 25 [''Blockchain''] =
     Inr [\<lparr>solution = ''RPA'', license_cost = 0, dev_cost = 0,
            user_license_cost = 0, total_cost = 0\<rparr>,
          \<lparr>solution = ''VBA'', license_cost = 0, dev_cost = 0,
            user_license_cost = 0, total_cost = 0\<rparr>,
          \<lparr>solution = ''Celonis'', license_cost = 0, dev_cost = 0,
            user_license_cost = 0, total_cost = 0\<rparr>,
          \<lparr>solution = ''Soroco'', license_cost = 0, dev_cost = 0,
            user_license_cost = 0, total_cost = 0\<rparr>,
          \<lparr>solution = ''Analytics'', license_cost = 0, dev_cost = 0,
            user_license_cost = 0, total_cost = 0\<rparr>,
          \<lparr>solution = ''AI'', license_cost = 0, dev_cost = 0,
            user_license_cost = 0, total_cost = 0\<rparr>,
          \<lparr>solution = ''Total Cost'', license_cost = 0, dev_cost = 0,
            user_license_cost = 0, total_cost = 0\<rparr>]"
    by (simp add: per_solution_table_def ALL_TECHS_eq solution_row_def totals_row_def)
  moreover have "''Blockchain'' \<notin> set ALL_TECHS"
    by (simp add: ALL_TECHS_eq)
  ultimately show ?thesis by blast
qed



subsection \<open>The money formatter\<close>

lemma decimal_digit: "n < 10 \<Longrightarrow> decimal n = [digit_char n]"
  by (simp add: decimal.simps [of n])

lemma decimal_digits:
  "10 \<le> n \<Longrightarrow> decimal n = decimal (n div 10) @ [digit_char (n mod 10)]"
  by (simp add: decimal.simps [of n])

lemma group_thousands_short: "length s \<le> 3 \<Longrightarrow> group_thousands s = s"
  by (simp add: group_thousands.simps [of s])

lemma group_thousands_long:
  "3 < length s \<Longrightarrow>
   group_thousands s = group_thousands (take (length s - 3) s) @ '','' @ drop (length s - 3) s"
  by (simp add: group_thousands.simps [of s])

lemma format_thousands_zero: "format_thousands 0 = Inr ''0''"
  by (simp add: format_thousands_def MAX_STR_DIGITS_def decimal_digit group_thousands_short
                digit_char_def)

lemma rhe_numeral:
  "round_half_even (numeral k) = numeral k"
  "round_half_even (- numeral k) = - numeral k"
  using rhe_of_int [of "numeral k"] rhe_of_int [of "- numeral k"] by simp_all

lemma round_five_halves: "round_half_even (5 / 2) = 2"
proof -
  have "(5 / 2 :: rat) = of_int 2 + 1 / 2" by simp
  from rhe_tie [OF this] show ?thesis by simp
qed

lemma floor_five_halves: "\<lfloor>5 / 2 :: rat\<rfloor> = 2"
  by (rule floor_unique) simp_all

lemma fmt_money_zero: "fmt_money (PInt 0) = Inr ''$0''"
  by (simp add: fmt_money_def fmt_money_try_def CURRENCY_def format_thousands_zero)

lemma fmt_money_returns: "\<exists>s. fmt_money x = Inr s"
  by (cases "fmt_money_try x") (simp_all add: fmt_money_def)

lemma fmt_money_sample:
  "fmt_money (PInt 1067000) = Inr ''$1,067,000''"
  "fmt_money (PFloat (Finite (- 450000))) = Inr ''$-450,000''"
  "fmt_money (PFloat (Finite (5 / 2))) = Inr ''$2''"
  by (simp_all add: fmt_money_def fmt_money_try_def CURRENCY_def format_thousands_def
                    MAX_STR_DIGITS_def Let_def
                    decimal_digit decimal_digits group_thousands_short group_thousands_long
                    digit_char_def round_five_halves rhe_numeral)

lemma fmt_money_digit_limit:
  assumes "MAX_STR_DIGITS < length (decimal (nat \<bar>n\<bar>))"
  shows "fmt_money (PInt n) = Inr ''$0''"
  using assms
  by (simp add: fmt_money_def fmt_money_try_def format_thousands_def Let_def CURRENCY_def)

text \<open>
  Claim C5. \<open>fmt_money\<close> returns a string on every input and never raises: on a string,
  on \<open>None\<close>, and also on a NaN or an infinity, where \<open>int(round(x))\<close> raises, the result
  is the result on \<open>0\<close>, the string \<open>$0\<close> with the currency symbol.
\<close>

theorem fmt_money_total:
  "(\<exists>s. fmt_money x = Inr s)
   \<and> fmt_money (PStr u) = fmt_money (PInt 0)
   \<and> fmt_money PNone = fmt_money (PInt 0)
   \<and> fmt_money (PFloat NaN) = fmt_money (PInt 0)
   \<and> fmt_money (PFloat PosInf) = fmt_money (PInt 0)
   \<and> fmt_money (PFloat NegInf) = fmt_money (PInt 0)
   \<and> fmt_money (PInt 0) = Inr (CURRENCY @ ''0'')"
  using fmt_money_returns [of x] fmt_money_zero
  by (simp add: fmt_money_def fmt_money_try_def CURRENCY_def)

subsection \<open>The validation block\<close>

lemma validation_collects:
  "validation (Inl ValueError) [] hc_category process_type transform_scale
     = Inl [''Headcount must be an integer.'', ''All dropdowns are mandatory.'']"
  "validation (Inr (Finite 0)) region [] process_type transform_scale
     = Inl [''Headcount must be > 0.'', ''All dropdowns are mandatory.'']"
  by (simp_all add: validation_def headcount_errors_def)

lemma validation_proceeds:
  assumes "validation parsed region hc_category process_type transform_scale = Inr hc_val"
  shows "0 < hc_val \<and> region \<noteq> [] \<and> hc_category \<noteq> [] \<and> process_type \<noteq> []
         \<and> transform_scale \<noteq> []"
  using assms
  by (auto simp: validation_def headcount_errors_def
           split: sum.splits if_splits option.splits)

text \<open>
  Claim C7 at the headcount text \<open>2.5\<close>, which \<open>float\<close> reads as the double \<open>2.5\<close>:
  \<open>int\<close> truncates it to \<open>2\<close>, no message is added, and with the four drop-downs
  filled the handler goes on to the calculation with a headcount of \<open>2\<close>.
\<close>

theorem validation_accepts_fraction:
  "validation (Inr (Finite (5 / 2))) ''EMEA'' ''Ops'' ''Claims'' ''Small'' = Inr 2"
  by (simp add: validation_def headcount_errors_def floor_five_halves)

subsection \<open>The workbook exporter\<close>







end
